theory Spec2Isabelle
  imports Complex_Main
begin

section \<open>JavaScript numbers and strings\<close>

text \<open>
  A JavaScript number is a double. Finite doubles are idealised as reals (rounding is
  not modelled); the three special values are kept, because the engine uses
  \<^verbatim>\<open>Infinity\<close> as its unreachable sentinel and compares against it.
\<close>

datatype jsnum = Fin real | PInf | NInf | NaN

fun js_add :: "jsnum \<Rightarrow> jsnum \<Rightarrow> jsnum" where
  "js_add (Fin a) (Fin b) = Fin (a + b)"
| "js_add NaN _ = NaN"
| "js_add _ NaN = NaN"
| "js_add PInf NInf = NaN"
| "js_add NInf PInf = NaN"
| "js_add PInf _ = PInf"
| "js_add _ PInf = PInf"
| "js_add NInf _ = NInf"
| "js_add _ NInf = NInf"

fun js_neg :: "jsnum \<Rightarrow> jsnum" where
  "js_neg (Fin a) = Fin (- a)"
| "js_neg PInf = NInf"
| "js_neg NInf = PInf"
| "js_neg NaN = NaN"

definition js_sub :: "jsnum \<Rightarrow> jsnum \<Rightarrow> jsnum" where
  "js_sub a b = js_add a (js_neg b)"

text \<open>Division of a number by a positive count (\<^verbatim>\<open>total / validPairs\<close>).\<close>

fun js_div_count :: "jsnum \<Rightarrow> nat \<Rightarrow> jsnum" where
  "js_div_count (Fin a) n = Fin (a / real n)"
| "js_div_count PInf n = PInf"
| "js_div_count NInf n = NInf"
| "js_div_count NaN n = NaN"

fun js_lt :: "jsnum \<Rightarrow> jsnum \<Rightarrow> bool" where
  "js_lt (Fin a) (Fin b) = (a < b)"
| "js_lt NaN _ = False"
| "js_lt _ NaN = False"
| "js_lt PInf _ = False"
| "js_lt _ NInf = False"
| "js_lt _ PInf = True"
| "js_lt NInf _ = True"

definition js_gt :: "jsnum \<Rightarrow> jsnum \<Rightarrow> bool" where
  "js_gt a b = js_lt b a"

fun js_le :: "jsnum \<Rightarrow> jsnum \<Rightarrow> bool" where
  "js_le (Fin a) (Fin b) = (a \<le> b)"
| "js_le NaN _ = False"
| "js_le _ NaN = False"
| "js_le NInf _ = True"
| "js_le _ PInf = True"
| "js_le PInf _ = False"
| "js_le _ NInf = False"

text \<open>\<^verbatim>\<open>a || b\<close> on an optional string: undefined and the empty string are falsy.\<close>

definition js_or_str :: "string option \<Rightarrow> string \<Rightarrow> string" where
  "js_or_str a b = (case a of None \<Rightarrow> b | Some s \<Rightarrow> if s = [] then b else s)"

definition endsWith :: "string \<Rightarrow> string \<Rightarrow> bool" where
  "endsWith s suf = (length suf \<le> length s \<and> drop (length s - length suf) s = suf)"

text \<open>
  \<^verbatim>\<open>Array.prototype.sort(cmp)\<close>: a stable sort driven by the comparator's sign. For a
  comparator that is a consistent ordering the result is the unique stable sorted
  permutation, which this insertion procedure computes.
\<close>

fun js_insert :: "('a \<Rightarrow> 'a \<Rightarrow> real) \<Rightarrow> 'a \<Rightarrow> 'a list \<Rightarrow> 'a list" where
  "js_insert cmp x [] = [x]"
| "js_insert cmp x (y # ys) = (if cmp x y \<le> 0 then x # y # ys else y # js_insert cmp x ys)"

fun js_sort :: "('a \<Rightarrow> 'a \<Rightarrow> real) \<Rightarrow> 'a list \<Rightarrow> 'a list" where
  "js_sort cmp [] = []"
| "js_sort cmp (x # xs) = js_insert cmp x (js_sort cmp xs)"

section \<open>Data model\<close>

record node =
  node_id :: string
  lat :: real
  lon :: real
  layer :: string
  name :: "string option"
  region :: "string option"
  node_type :: "string option"

text \<open>An edge record of the input dataset.\<close>

record edge =
  from_id :: string
  to_id :: string
  edge_mode :: "string option"
  edge_type :: "string option"
  distance_km :: real
  time_min :: real
  cost_rs :: "real option"
  intra_or_inter :: "string option"

text \<open>
  The attributes an edge of the graph carries. Edges inserted by the recommender have no
  \<^verbatim>\<open>baseTime\<close>, \<^verbatim>\<open>baseCost\<close> or \<^verbatim>\<open>isInterModal\<close>; \<^verbatim>\<open>weight\<close> is undefined when the
  objective is none of the three known ones.
\<close>

record edge_attrs =
  weight :: "real option"
  transportMode :: string
  mode :: string
  distance :: real
  time :: real
  cost :: real
  baseTime :: "real option"
  baseCost :: "real option"
  isInterModal :: "bool option"

text \<open>
  The graphology graph (\<^verbatim>\<open>multi: false, type: 'undirected'\<close>): nodes with their
  attributes and edges with theirs, both in insertion order.
\<close>

record graph =
  nodes :: "(string \<times> node) list"
  edges :: "(string \<times> string \<times> edge_attrs) list"

datatype js_error = UsageGraphError | NotFoundGraphError

definition emptyGraph :: graph where
  "emptyGraph = \<lparr>nodes = [], edges = []\<rparr>"

definition hasNode :: "graph \<Rightarrow> string \<Rightarrow> bool" where
  "hasNode g k = (k \<in> fst ` set (nodes g))"

definition joins :: "string \<Rightarrow> string \<Rightarrow> string \<times> string \<times> edge_attrs \<Rightarrow> bool" where
  "joins a b e = ((fst e = a \<and> fst (snd e) = b) \<or> (fst e = b \<and> fst (snd e) = a))"

definition hasEdge :: "graph \<Rightarrow> string \<Rightarrow> string \<Rightarrow> bool" where
  "hasEdge g a b = (\<exists>e \<in> set (edges g). joins a b e)"

definition getNodeAttributes :: "graph \<Rightarrow> string \<Rightarrow> js_error + node" where
  "getNodeAttributes g k = (case map_of (nodes g) k of None \<Rightarrow> Inl NotFoundGraphError | Some n \<Rightarrow> Inr n)"

definition getEdgeAttributes :: "graph \<Rightarrow> string \<Rightarrow> string \<Rightarrow> js_error + edge_attrs" where
  "getEdgeAttributes g a b =
     (case find (joins a b) (edges g) of
        None \<Rightarrow> Inl NotFoundGraphError
      | Some e \<Rightarrow> Inr (snd (snd e)))"

definition addNode :: "graph \<Rightarrow> string \<Rightarrow> node \<Rightarrow> js_error + graph" where
  "addNode g k n = (if hasNode g k then Inl UsageGraphError else Inr (g\<lparr>nodes := nodes g @ [(k, n)]\<rparr>))"

definition addEdge :: "graph \<Rightarrow> string \<Rightarrow> string \<Rightarrow> edge_attrs \<Rightarrow> js_error + graph" where
  "addEdge g a b attrs =
     (if \<not> hasNode g a \<or> \<not> hasNode g b then Inl NotFoundGraphError
      else if hasEdge g a b then Inl UsageGraphError
      else Inr (g\<lparr>edges := edges g @ [(a, b, attrs)]\<rparr>))"

definition dropEdge :: "graph \<Rightarrow> string \<Rightarrow> string \<Rightarrow> graph" where
  "dropEdge g a b = g\<lparr>edges := filter (\<lambda>e. \<not> joins a b e) (edges g)\<rparr>"

definition dropNode :: "graph \<Rightarrow> string \<Rightarrow> graph" where
  "dropNode g k =
     g\<lparr>nodes := filter (\<lambda>p. fst p \<noteq> k) (nodes g),
       edges := filter (\<lambda>e. fst e \<noteq> k \<and> fst (snd e) \<noteq> k) (edges g)\<rparr>"

text \<open>
  graphology keeps the neighbours of a node as the keys of a plain object, and
  \<^verbatim>\<open>forEachNeighbor\<close> enumerates that object: first the keys that are canonical array
  indices (decimal numerals without leading zero, below \<open>2^32 - 1\<close>) in ascending numeric
  order, then all other keys in the order their edges were inserted.
\<close>

definition isDigit :: "char \<Rightarrow> bool" where
  "isDigit c = (c \<in> set ''0123456789'')"

definition decimalValue :: "string \<Rightarrow> nat" where
  "decimalValue s = foldl (\<lambda>n c. 10 * n + (of_char c - 48)) 0 s"

definition isArrayIndex :: "string \<Rightarrow> bool" where
  "isArrayIndex s =
     (s \<noteq> [] \<and> list_all isDigit s \<and> (s = ''0'' \<or> hd s \<noteq> CHR ''0'') \<and>
      decimalValue s < 2 ^ 32 - 1)"

definition objectKeyOrder :: "string list \<Rightarrow> string list" where
  "objectKeyOrder ks =
     sort_key decimalValue (filter isArrayIndex ks) @ filter (\<lambda>k. \<not> isArrayIndex k) ks"

definition neighborKeys :: "graph \<Rightarrow> string \<Rightarrow> string list" where
  "neighborKeys g k =
     objectKeyOrder
       (List.map_filter
          (\<lambda>e. if fst e = k then Some (fst (snd e))
               else if fst (snd e) = k then Some (fst e)
               else None)
          (edges g))"

section \<open>Weighted graph builder\<close>

definition calculateMetroFare :: "real \<Rightarrow> real" where
  "calculateMetroFare distanceKm =
     (if distanceKm \<le> 2 then 10
      else if distanceKm \<le> 4 then 20
      else if distanceKm \<le> 6 then 30
      else if distanceKm \<le> 9 then 40
      else if distanceKm \<le> 12 then 50
      else if distanceKm \<le> 15 then 60
      else if distanceKm \<le> 18 then 70
      else if distanceKm \<le> 21 then 80
      else if distanceKm \<le> 24 then 90
      else 100)"

definition TRANSFER_PENALTY :: real where
  "TRANSFER_PENALTY = 10000"

record coefficients =
  timeMultiplier :: real
  costMultiplier :: real

record route_context =
  rc_source :: "string option"
  rc_target :: "string option"

definition defaultCoefficients :: coefficients where
  "defaultCoefficients = \<lparr>timeMultiplier = 1, costMultiplier = 1\<rparr>"

definition coefficientsOf :: "coefficients option \<Rightarrow> coefficients" where
  "coefficientsOf tod = (case tod of None \<Rightarrow> defaultCoefficients | Some c \<Rightarrow> c)"

definition isMetroId :: "string option \<Rightarrow> bool" where
  "isMetroId s = (case s of None \<Rightarrow> False | Some x \<Rightarrow> endsWith x ''_Metro'')"

definition preferMetro :: "route_context option \<Rightarrow> bool" where
  "preferMetro rc =
     (case rc of None \<Rightarrow> False
      | Some c \<Rightarrow> isMetroId (rc_source c) \<and> isMetroId (rc_target c))"

definition transportModeOf :: "edge \<Rightarrow> string" where
  "transportModeOf e = js_or_str (edge_mode e) (js_or_str (edge_type e) ''unknown'')"

definition baseCostOf :: "edge \<Rightarrow> real" where
  "baseCostOf e =
     (if transportModeOf e = ''metro'' then calculateMetroFare (distance_km e)
      else (case cost_rs e of None \<Rightarrow> 0 | Some c \<Rightarrow> c))"

definition adjustedTimeOf :: "coefficients \<Rightarrow> edge \<Rightarrow> real" where
  "adjustedTimeOf co e =
     (if transportModeOf e = ''metro'' \<or> transportModeOf e = ''mmts'' then time_min e
      else time_min e * timeMultiplier co)"

definition adjustedCostOf :: "coefficients \<Rightarrow> bool \<Rightarrow> edge \<Rightarrow> real" where
  "adjustedCostOf co pm e =
     (let adjustedCost =
            (if transportModeOf e = ''metro'' \<or> transportModeOf e = ''mmts'' then baseCostOf e
             else baseCostOf e * costMultiplier co)
      in if pm \<and> transportModeOf e \<noteq> ''metro'' \<and> intra_or_inter e \<noteq> Some ''inter''
         then adjustedCost * (14 / 10)
         else adjustedCost)"

definition weightOf :: "string \<Rightarrow> coefficients \<Rightarrow> bool \<Rightarrow> edge \<Rightarrow> real option" where
  "weightOf objective co pm e =
     (if objective = ''time'' then Some (adjustedTimeOf co e)
      else if objective = ''cost'' then Some (adjustedCostOf co pm e)
      else if objective = ''transfers'' then
        Some (time_min e * (1 / 100)
              + (if intra_or_inter e = Some ''inter'' then TRANSFER_PENALTY else 0))
      else None)"

text \<open>
  The attribute object \<^verbatim>\<open>buildGraph\<close> stores for an input edge. Of the spread input
  record and the time-of-day label only the keys the engine reads are kept. The console
  output and the first-occurrence flags that guard it do not reach the result and are
  left out.
\<close>

definition edgeAttributes :: "string \<Rightarrow> coefficients \<Rightarrow> bool \<Rightarrow> edge \<Rightarrow> edge_attrs" where
  "edgeAttributes objective co pm e =
     \<lparr>weight = weightOf objective co pm e,
      transportMode = transportModeOf e,
      mode = transportModeOf e,
      distance = distance_km e,
      time = adjustedTimeOf co e,
      cost = adjustedCostOf co pm e,
      baseTime = Some (time_min e),
      baseCost = Some (baseCostOf e),
      isInterModal = Some (intra_or_inter e = Some ''inter'')\<rparr>"

fun addNodes :: "graph \<Rightarrow> node list \<Rightarrow> js_error + graph" where
  "addNodes g [] = Inr g"
| "addNodes g (n # ns) =
     (case addNode g (node_id n) n of Inl err \<Rightarrow> Inl err | Inr g' \<Rightarrow> addNodes g' ns)"

definition addEdgeStep :: "string \<Rightarrow> coefficients \<Rightarrow> bool \<Rightarrow> graph \<Rightarrow> edge \<Rightarrow> graph" where
  "addEdgeStep objective co pm g e =
     (if \<not> hasNode g (from_id e) \<or> \<not> hasNode g (to_id e) then g
      else if \<not> hasEdge g (from_id e) (to_id e) then
        (case addEdge g (from_id e) (to_id e) (edgeAttributes objective co pm e) of
           Inl err \<Rightarrow> g
         | Inr g' \<Rightarrow> g')
      else g)"

definition buildGraph ::
  "node list \<Rightarrow> edge list \<Rightarrow> string \<Rightarrow> coefficients option \<Rightarrow> route_context option \<Rightarrow> js_error + graph" where
  "buildGraph ns es objective tod rc =
     (case addNodes emptyGraph ns of
        Inl err \<Rightarrow> Inl err
      | Inr g \<Rightarrow> Inr (foldl (addEdgeStep objective (coefficientsOf tod) (preferMetro rc)) g es))"

section \<open>Failure simulator\<close>

text \<open>
  \<^verbatim>\<open>applyFailure\<close> copies its argument and then mutates the copy in place, so graphs are
  objects in a store here: a reference is an index into the list of all graph objects,
  \<^verbatim>\<open>graph.copy()\<close> allocates a new object (with attribute objects of its own, which hold
  numbers and strings only), and \<^verbatim>\<open>dropNode\<close> and \<^verbatim>\<open>dropEdge\<close> overwrite
  the object they are called on. Both throw on a missing node or edge; every call below is
  guarded by \<^verbatim>\<open>hasNode\<close> or \<^verbatim>\<open>hasEdge\<close>, or drops a node just enumerated from the same
  graph, so the throwing branch is never taken and is left out.
\<close>

type_synonym store = "graph list"

definition copy :: "store \<Rightarrow> nat \<Rightarrow> nat \<times> store" where
  "copy st r = (length st, st @ [st ! r])"

text \<open>\<^verbatim>\<open>s.split('_')\<close>: the pieces between the underscores, in order.\<close>

fun split_underscore :: "string \<Rightarrow> string list" where
  "split_underscore [] = [[]]"
| "split_underscore (c # cs) =
     (if c = CHR ''_'' then [] # split_underscore cs
      else (case split_underscore cs of
              [] \<Rightarrow> [[c]]
            | t # ts \<Rightarrow> (c # t) # ts))"

text \<open>
  \<^verbatim>\<open>const [from, to] = edgeSpec.split('_')\<close>: the first two pieces; a missing second piece
  is \<^verbatim>\<open>undefined\<close>, which graphology turns into the key \<^verbatim>\<open>"undefined"\<close>.
\<close>

definition edgeEndpoints :: "string \<Rightarrow> string \<times> string" where
  "edgeEndpoints edgeSpec =
     (case split_underscore edgeSpec of
        [] \<Rightarrow> (''undefined'', ''undefined'')
      | [a] \<Rightarrow> (a, ''undefined'')
      | a # b # rest \<Rightarrow> (a, b))"

definition failNode :: "nat \<Rightarrow> store \<Rightarrow> string \<Rightarrow> store" where
  "failNode failedGraph st nodeId =
     (if hasNode (st ! failedGraph) nodeId
      then st[failedGraph := dropNode (st ! failedGraph) nodeId]
      else st)"

definition failEdge :: "nat \<Rightarrow> store \<Rightarrow> string \<Rightarrow> store" where
  "failEdge failedGraph st edgeSpec =
     (case edgeEndpoints edgeSpec of
        (from, to) \<Rightarrow>
          if hasEdge (st ! failedGraph) from to
          then st[failedGraph := dropEdge (st ! failedGraph) from to]
          else st)"

definition layerNodes :: "graph \<Rightarrow> string list \<Rightarrow> string list" where
  "layerNodes g failureTargets =
     map fst (filter (\<lambda>p. layer (snd p) \<in> set failureTargets) (nodes g))"

definition applyFailure :: "store \<Rightarrow> nat \<Rightarrow> string \<Rightarrow> string list \<Rightarrow> nat \<times> store" where
  "applyFailure st graph failureType failureTargets =
     (case copy st graph of
        (failedGraph, st1) \<Rightarrow>
          if length failureTargets = 0 then (failedGraph, st1)
          else if failureType = ''node'' then
            (failedGraph, foldl (failNode failedGraph) st1 failureTargets)
          else if failureType = ''edge'' then
            (failedGraph, foldl (failEdge failedGraph) st1 failureTargets)
          else if failureType = ''layer'' then
            (failedGraph,
             foldl (\<lambda>s n. s[failedGraph := dropNode (s ! failedGraph) n]) st1
               (layerNodes (st1 ! failedGraph) failureTargets))
          else (failedGraph, st1))"

text \<open>The inverse of splitting, used to state what \<^verbatim>\<open>split('_')\<close> returns.\<close>

fun join_underscore :: "string list \<Rightarrow> string" where
  "join_underscore [] = []"
| "join_underscore [t] = t"
| "join_underscore (t # u # ts) = t @ ''_'' @ join_underscore (u # ts)"

section \<open>Shortest-path engine\<close>

subsection \<open>Transfer-minimising search\<close>

record qentry =
  q_node :: string
  q_transfers :: nat
  q_time :: real
  prevMode :: "string option"
  q_path :: "string list"

text \<open>The comparator of \<^verbatim>\<open>queue.sort\<close>: by transfers first, then by time.\<close>

definition queueOrder :: "qentry \<Rightarrow> qentry \<Rightarrow> real" where
  "queueOrder a b =
     (if q_transfers a \<noteq> q_transfers b then real (q_transfers a) - real (q_transfers b)
      else q_time a - q_time b)"

text \<open>The template string \<^verbatim>\<open>`${current.node}_${current.prevMode}`\<close>.\<close>

definition stateKey :: "qentry \<Rightarrow> string" where
  "stateKey current =
     q_node current @ ''_'' @ (case prevMode current of None \<Rightarrow> ''null'' | Some m \<Rightarrow> m)"

text \<open>\<^verbatim>\<open>edge.transportMode || edge.mode\<close>\<close>

definition edgeModeOf :: "edge_attrs \<Rightarrow> string" where
  "edgeModeOf edge = (if transportMode edge \<noteq> [] then transportMode edge else mode edge)"

text \<open>
  The callback of \<^verbatim>\<open>forEachNeighbor\<close>. It reads the joining edge with
  \<^verbatim>\<open>getEdgeAttributes(current.node, neighbor)\<close>, which cannot fail for a neighbour; the
  failing branch leaves the state as it is.
\<close>

definition relax ::
  "graph \<Rightarrow> qentry \<Rightarrow> (string \<rightharpoonup> nat \<times> real) \<times> qentry list \<Rightarrow> string \<Rightarrow>
     (string \<rightharpoonup> nat \<times> real) \<times> qentry list" where
  "relax g current st neighbor =
     (case getEdgeAttributes g (q_node current) neighbor of
        Inl err \<Rightarrow> st
      | Inr edge \<Rightarrow>
          (let edgeMode = edgeModeOf edge;
               edgeTime = time edge;
               newTransfers =
                 (if prevMode current \<noteq> None \<and> prevMode current \<noteq> Some edgeMode
                  then q_transfers current + 1 else q_transfers current);
               newTime = q_time current + edgeTime;
               isBetter =
                 (case fst st neighbor of
                    None \<Rightarrow> True
                  | Some bestSoFar \<Rightarrow>
                      newTransfers < fst bestSoFar \<or>
                      (newTransfers = fst bestSoFar \<and> newTime < snd bestSoFar))
           in if isBetter
              then ((fst st)(neighbor \<mapsto> (newTransfers, newTime)),
                    snd st @ [\<lparr>q_node = neighbor, q_transfers = newTransfers, q_time = newTime,
                               prevMode = Some edgeMode, q_path = q_path current @ [neighbor]\<rparr>])
              else st))"

text \<open>The \<^verbatim>\<open>while (queue.length > 0)\<close> loop: sort, take the head, expand it.\<close>

function searchLoop ::
  "graph \<Rightarrow> string \<Rightarrow> qentry list \<Rightarrow> string set \<Rightarrow> (string \<rightharpoonup> nat \<times> real) \<Rightarrow>
     string list option" where
  "searchLoop g target queue visited best =
     (case js_sort queueOrder queue of
        [] \<Rightarrow> None
      | current # rest \<Rightarrow>
          if q_node current = target then Some (q_path current)
          else if stateKey current \<in> visited then searchLoop g target rest visited best
          else (case foldl (relax g current) (best, rest) (neighborKeys g (q_node current)) of
                  (best', queue') \<Rightarrow>
                    searchLoop g target queue' (insert (stateKey current) visited) best'))"
  by pat_completeness auto

definition dijkstraMinTransfers :: "graph \<Rightarrow> string \<Rightarrow> string \<Rightarrow> string list option" where
  "dijkstraMinTransfers g source target =
     (if \<not> hasNode g source \<or> \<not> hasNode g target then None
      else if source = target then Some [source]
      else searchLoop g target
             [\<lparr>q_node = source, q_transfers = 0, q_time = 0, prevMode = None, q_path = [source]\<rparr>]
             {} [source \<mapsto> (0, 0)])"

subsection \<open>Path results\<close>

text \<open>
  What the library routine \<^verbatim>\<open>bidirectional(graph, source, target, 'weight')\<close> of
  graphology-shortest-path can do: throw, return \<^verbatim>\<open>null\<close>, or return a path. The routine
  is a parameter of the engine.
\<close>

datatype library_result = Throws | Null | Path "string list"

type_synonym library = "graph \<Rightarrow> string \<Rightarrow> string \<Rightarrow> library_result"

record path_segment =
  seg_from :: string
  seg_to :: string
  fromId :: string
  toId :: string
  seg_mode :: string
  seg_time :: real
  seg_cost :: real
  seg_distance :: real

text \<open>
  The object \<^verbatim>\<open>{path, pathSegments, distance, transfers, time, cost}\<close>; a key that the
  object does not have is \<open>None\<close>.
\<close>

record path_result =
  path :: "string list option"
  pathSegments :: "path_segment list option"
  pathDistance :: jsnum
  transfers :: jsnum
  pathTime :: jsnum
  pathCost :: jsnum

definition UNREACHABLE :: jsnum where
  "UNREACHABLE = PInf"

definition unreachableResult :: path_result where
  "unreachableResult =
     \<lparr>path = None, pathSegments = None, pathDistance = UNREACHABLE, transfers = UNREACHABLE,
      pathTime = UNREACHABLE, pathCost = UNREACHABLE\<rparr>"

text \<open>The result of the \<^verbatim>\<open>catch\<close> block.\<close>

definition caughtResult :: path_result where
  "caughtResult =
     \<lparr>path = None, pathSegments = Some [], pathDistance = UNREACHABLE, transfers = UNREACHABLE,
      pathTime = UNREACHABLE, pathCost = UNREACHABLE\<rparr>"

definition trivialResult :: "string \<Rightarrow> path_result" where
  "trivialResult source =
     \<lparr>path = Some [source], pathSegments = None, pathDistance = Fin 0, transfers = Fin 0,
      pathTime = Fin 0, pathCost = Fin 0\<rparr>"

record walk_state =
  w_time :: real
  w_cost :: real
  w_distance :: real
  w_transfers :: nat
  w_prevMode :: "string option"
  w_segments :: "path_segment list"

definition walkStart :: walk_state where
  "walkStart = \<lparr>w_time = 0, w_cost = 0, w_distance = 0, w_transfers = 0, w_prevMode = None,
     w_segments = []\<rparr>"

text \<open>One iteration of the loop over the path's edges.\<close>

definition walkStep :: "graph \<Rightarrow> string \<Rightarrow> string \<Rightarrow> walk_state \<Rightarrow> js_error + walk_state" where
  "walkStep g a b w =
     (case getEdgeAttributes g a b of
        Inl err \<Rightarrow> Inl err
      | Inr edge \<Rightarrow>
          (case getNodeAttributes g a of
             Inl err \<Rightarrow> Inl err
           | Inr fromNode \<Rightarrow>
               (case getNodeAttributes g b of
                  Inl err \<Rightarrow> Inl err
                | Inr toNode \<Rightarrow>
                    (let segmentMode = (if edgeModeOf edge \<noteq> [] then edgeModeOf edge else ''unknown'');
                         currentMode = edgeModeOf edge
                     in Inr \<lparr>w_time = w_time w + time edge,
                             w_cost = w_cost w + cost edge,
                             w_distance = w_distance w + distance edge,
                             w_transfers =
                               (if w_prevMode w \<noteq> None \<and> w_prevMode w \<noteq> Some currentMode
                                then w_transfers w + 1 else w_transfers w),
                             w_prevMode = Some currentMode,
                             w_segments = w_segments w @
                               [\<lparr>seg_from = js_or_str (name fromNode) a,
                                 seg_to = js_or_str (name toNode) b,
                                 fromId = a, toId = b, seg_mode = segmentMode,
                                 seg_time = time edge, seg_cost = cost edge,
                                 seg_distance = distance edge\<rparr>]\<rparr>))))"

fun walkPath :: "graph \<Rightarrow> string list \<Rightarrow> walk_state \<Rightarrow> js_error + walk_state" where
  "walkPath g (a # b # rest) w =
     (case walkStep g a b w of Inl err \<Rightarrow> Inl err | Inr w' \<Rightarrow> walkPath g (b # rest) w')"
| "walkPath g p w = Inr w"

definition computeShortestPath ::
  "library \<Rightarrow> graph \<Rightarrow> string \<Rightarrow> string \<Rightarrow> string \<Rightarrow> path_result" where
  "computeShortestPath bidirectional g source target objective =
     (if \<not> hasNode g source \<or> \<not> hasNode g target then unreachableResult
      else if source = target then trivialResult source
      else
        (case (if objective = ''transfers''
               then (case dijkstraMinTransfers g source target of
                       None \<Rightarrow> Null | Some p \<Rightarrow> Path p)
               else bidirectional g source target) of
           Throws \<Rightarrow> caughtResult
         | Null \<Rightarrow> unreachableResult
         | Path p \<Rightarrow>
             (case walkPath g p walkStart of
                Inl err \<Rightarrow> caughtResult
              | Inr w \<Rightarrow>
                  \<lparr>path = Some p, pathSegments = Some (w_segments w),
                   pathDistance = Fin (w_distance w), transfers = Fin (real (w_transfers w)),
                   pathTime = Fin (w_time w), pathCost = Fin (w_cost w)\<rparr>)))"

text \<open>A list of nodes is a walk of the graph, and a walk from one node to another.\<close>

fun isWalk :: "graph \<Rightarrow> string list \<Rightarrow> bool" where
  "isWalk g [] = False"
| "isWalk g [a] = True"
| "isWalk g (a # b # rest) = (hasEdge g a b \<and> isWalk g (b # rest))"

definition connects :: "graph \<Rightarrow> string \<Rightarrow> string \<Rightarrow> string list \<Rightarrow> bool" where
  "connects g s t p = (p \<noteq> [] \<and> hd p = s \<and> last p = t \<and> isWalk g p)"

text \<open>The state keys that an entry pushed by \<open>relax\<close> can have.\<close>

definition edgeKeys :: "graph \<Rightarrow> string set" where
  "edgeKeys g =
     (\<Union>e \<in> set (edges g).
        {fst e @ ''_'' @ edgeModeOf (snd (snd e)), fst (snd e) @ ''_'' @ edgeModeOf (snd (snd e))})"

section \<open>Metrics aggregator\<close>

record od_pair =
  od_source :: string
  od_target :: string
  od_sourceName :: "string option"
  od_targetName :: "string option"

text \<open>
  An entry of \<^verbatim>\<open>results\<close>: the path result spread into an object with the pair's
  identifiers, its display names and the \<^verbatim>\<open>reachable\<close> flag.
\<close>

record od_result = path_result +
  r_source :: string
  r_target :: string
  r_sourceName :: string
  r_targetName :: string
  reachable :: bool

definition odResult :: "od_pair \<Rightarrow> path_result \<Rightarrow> bool \<Rightarrow> od_result" where
  "odResult od result ok =
     \<lparr>path = path result, pathSegments = pathSegments result,
      pathDistance = pathDistance result, transfers = transfers result,
      pathTime = pathTime result, pathCost = pathCost result,
      r_source = od_source od, r_target = od_target od,
      r_sourceName = js_or_str (od_sourceName od) (od_source od),
      r_targetName = js_or_str (od_targetName od) (od_target od),
      reachable = ok\<rparr>"

text \<open>The local variables of \<^verbatim>\<open>computeMetrics\<close> that the loop over the pairs updates.\<close>

record metrics_state =
  m_results :: "od_result list"
  totalTime :: jsnum
  totalCost :: jsnum
  totalTransfers :: jsnum
  m_disconnected :: nat
  m_validPairs :: nat

record metrics =
  avgTime :: jsnum
  avgCost :: jsnum
  avgTransfers :: jsnum
  disconnected :: nat
  totalPairs :: nat
  validPairs :: nat
  results :: "od_result list"

definition metricsStart :: metrics_state where
  "metricsStart = \<lparr>m_results = [], totalTime = Fin 0, totalCost = Fin 0, totalTransfers = Fin 0,
     m_disconnected = 0, m_validPairs = 0\<rparr>"

definition metricsStep ::
  "library \<Rightarrow> graph \<Rightarrow> string \<Rightarrow> metrics_state \<Rightarrow> od_pair \<Rightarrow> metrics_state" where
  "metricsStep bidirectional g objective st od =
     (let result = computeShortestPath bidirectional g (od_source od) (od_target od) objective
      in if pathTime result = UNREACHABLE
         then st\<lparr>m_disconnected := m_disconnected st + 1,
                 m_results := m_results st @ [odResult od result False]\<rparr>
         else st\<lparr>totalTime := js_add (totalTime st) (pathTime result),
                 totalCost := js_add (totalCost st) (pathCost result),
                 totalTransfers := js_add (totalTransfers st) (transfers result),
                 m_validPairs := m_validPairs st + 1,
                 m_results := m_results st @ [odResult od result True]\<rparr>)"

definition computeMetrics :: "library \<Rightarrow> graph \<Rightarrow> od_pair list \<Rightarrow> string \<Rightarrow> metrics" where
  "computeMetrics bidirectional g odPairs objective =
     (let st = foldl (metricsStep bidirectional g objective) metricsStart odPairs
      in \<lparr>avgTime = (if m_validPairs st > 0
                     then js_div_count (totalTime st) (m_validPairs st) else Fin 0),
          avgCost = (if m_validPairs st > 0
                     then js_div_count (totalCost st) (m_validPairs st) else Fin 0),
          avgTransfers = (if m_validPairs st > 0
                          then js_div_count (totalTransfers st) (m_validPairs st) else Fin 0),
          disconnected = m_disconnected st,
          totalPairs = length odPairs,
          validPairs = m_validPairs st,
          results = m_results st\<rparr>)"

text \<open>A running sum as the loop computes it: from 0, adding left to right.\<close>

definition js_sum :: "jsnum list \<Rightarrow> jsnum" where
  "js_sum xs = foldl js_add (Fin 0) xs"

section \<open>Candidate generator\<close>

record candidate =
  c_from :: string
  c_to :: string
  fromName :: "string option"
  toName :: "string option"
  c_type :: string
  c_distance :: real
  priority :: real

text \<open>
  \<^verbatim>\<open>euclideanDistance\<close> is the haversine formula in floating-point trigonometry; no claim
  depends on its value, and it is a parameter \<open>haversine\<close> of the generator
  (\<open>haversine lat1 lon1 lat2 lon2\<close>).
\<close>

type_synonym distance_fn = "real \<Rightarrow> real \<Rightarrow> real \<Rightarrow> real \<Rightarrow> real"

text \<open>The local state of \<^verbatim>\<open>generateCandidates\<close>: \<^verbatim>\<open>candidates\<close> and \<^verbatim>\<open>candidateSet\<close>.\<close>

type_synonym cand_state = "candidate list \<times> string set"

definition addCandidate ::
  "distance_fn \<Rightarrow> node list \<Rightarrow> graph \<Rightarrow> graph \<Rightarrow> cand_state \<Rightarrow>
     string \<Rightarrow> string \<Rightarrow> string \<Rightarrow> real \<Rightarrow> cand_state" where
  "addCandidate haversine ns originalGraph failedGraph st from to type prio =
     (let key = from @ ''_'' @ to;
          reverseKey = to @ ''_'' @ from
      in if key \<in> snd st \<or> reverseKey \<in> snd st then st
         else if hasEdge failedGraph from to \<or> hasEdge originalGraph from to then st
         else (case find (\<lambda>n. node_id n = from) ns of
                 None \<Rightarrow> st
               | Some fromNode \<Rightarrow>
                   (case find (\<lambda>n. node_id n = to) ns of
                      None \<Rightarrow> st
                    | Some toNode \<Rightarrow>
                        (fst st @
                           [\<lparr>c_from = from, c_to = to, fromName = name fromNode,
                             toName = name toNode, c_type = type,
                             c_distance = haversine (lat fromNode) (lon fromNode) (lat toNode) (lon toNode),
                             priority = prio\<rparr>],
                         insert key (snd st)))))"

text \<open>Strategy 1: pairs of bus hubs, 2 to 6 km apart.\<close>

definition hubPair ::
  "distance_fn \<Rightarrow> node list \<Rightarrow> graph \<Rightarrow> graph \<Rightarrow> node \<Rightarrow> cand_state \<Rightarrow> node \<Rightarrow> cand_state" where
  "hubPair haversine ns originalGraph failedGraph hi st hj =
     (let d = haversine (lat hi) (lon hi) (lat hj) (lon hj)
      in if d \<ge> 2 \<and> d \<le> 6
         then addCandidate haversine ns originalGraph failedGraph st (node_id hi) (node_id hj)
                ''hub_neighbor'' 10
         else st)"

fun hubNeighbors ::
  "distance_fn \<Rightarrow> node list \<Rightarrow> graph \<Rightarrow> graph \<Rightarrow> node list \<Rightarrow> cand_state \<Rightarrow> cand_state" where
  "hubNeighbors haversine ns originalGraph failedGraph [] st = st"
| "hubNeighbors haversine ns originalGraph failedGraph (hi # busHubs) st =
     hubNeighbors haversine ns originalGraph failedGraph busHubs
       (foldl (hubPair haversine ns originalGraph failedGraph hi) st busHubs)"

text \<open>Strategy 2: a metro station and an MMTS station, 0.5 to 4 km apart.\<close>

definition crossPair ::
  "distance_fn \<Rightarrow> node list \<Rightarrow> graph \<Rightarrow> graph \<Rightarrow> node \<Rightarrow> cand_state \<Rightarrow> node \<Rightarrow> cand_state" where
  "crossPair haversine ns originalGraph failedGraph metro st mmts =
     (let d = haversine (lat metro) (lon metro) (lat mmts) (lon mmts)
      in if d \<ge> 1 / 2 \<and> d \<le> 4
         then addCandidate haversine ns originalGraph failedGraph st (node_id metro) (node_id mmts)
                ''cross_rail'' 8
         else st)"

definition crossRail ::
  "distance_fn \<Rightarrow> node list \<Rightarrow> graph \<Rightarrow> graph \<Rightarrow> cand_state \<Rightarrow> cand_state" where
  "crossRail haversine ns originalGraph failedGraph st =
     (let metroStations = filter (\<lambda>n. layer n = ''metro'') ns;
          mmtsStations = filter (\<lambda>n. layer n = ''mmts'') ns
      in foldl (\<lambda>s metro. foldl (crossPair haversine ns originalGraph failedGraph metro) s mmtsStations)
           st metroStations)"

text \<open>
  Strategy 3. The comparator handed to \<^verbatim>\<open>sort\<close> is
  \<^verbatim>\<open>(b.time - a.time) - (a.time - 0)\<close>; a comparator result that is not a number counts as 0,
  an infinite one by its sign. This comparator is not a consistent ordering, for which
  ECMAScript leaves the resulting order to the engine, so the engine's sort is a parameter
  \<open>odSort\<close> here.
\<close>

fun sortValue :: "jsnum \<Rightarrow> real" where
  "sortValue (Fin v) = v"
| "sortValue PInf = 1"
| "sortValue NInf = - 1"
| "sortValue NaN = 0"

definition odCompare :: "od_result \<Rightarrow> od_result \<Rightarrow> real" where
  "odCompare a b =
     sortValue (js_sub (js_sub (pathTime b) (pathTime a)) (js_sub (pathTime a) (Fin 0)))"

type_synonym od_sort = "(od_result \<Rightarrow> od_result \<Rightarrow> real) \<Rightarrow> od_result list \<Rightarrow> od_result list"

definition topAffected :: "od_sort \<Rightarrow> od_result list \<Rightarrow> od_result list" where
  "topAffected odSort scenarioResults = take 5 (odSort odCompare (filter reachable scenarioResults))"

definition odStep ::
  "distance_fn \<Rightarrow> node list \<Rightarrow> graph \<Rightarrow> graph \<Rightarrow> cand_state \<Rightarrow> od_result \<Rightarrow> cand_state" where
  "odStep haversine ns originalGraph failedGraph st od =
     (case path od of
        None \<Rightarrow> st
      | Some p \<Rightarrow>
          if length p > 2 then
            (let midPoint = length p div 2
             in if p ! 0 \<noteq> [] \<and> p ! midPoint \<noteq> []
                then addCandidate haversine ns originalGraph failedGraph st (p ! 0) (p ! midPoint)
                       ''od_driven'' 7
                else st)
          else st)"

text \<open>
  Strategy 4: major hubs of different regions, 3 to 15 km apart. Both loops stop as soon
  as 40 candidates exist.
\<close>

definition expressPair ::
  "distance_fn \<Rightarrow> node list \<Rightarrow> graph \<Rightarrow> graph \<Rightarrow> node \<Rightarrow> cand_state \<Rightarrow> node \<Rightarrow> cand_state" where
  "expressPair haversine ns originalGraph failedGraph hi st hj =
     (if region hi \<noteq> region hj then
        (let d = haversine (lat hi) (lon hi) (lat hj) (lon hj)
         in if d \<ge> 3 \<and> d \<le> 15
            then addCandidate haversine ns originalGraph failedGraph st (node_id hi) (node_id hj)
                   ''express_hub'' 6
            else st)
      else st)"

fun expressInner ::
  "distance_fn \<Rightarrow> node list \<Rightarrow> graph \<Rightarrow> graph \<Rightarrow> node \<Rightarrow> node list \<Rightarrow> cand_state \<Rightarrow> cand_state" where
  "expressInner haversine ns originalGraph failedGraph hi [] st = st"
| "expressInner haversine ns originalGraph failedGraph hi (hj # rest) st =
     (if length (fst st) < 40
      then expressInner haversine ns originalGraph failedGraph hi rest
             (expressPair haversine ns originalGraph failedGraph hi st hj)
      else st)"

fun expressHubs ::
  "distance_fn \<Rightarrow> node list \<Rightarrow> graph \<Rightarrow> graph \<Rightarrow> node list \<Rightarrow> cand_state \<Rightarrow> cand_state" where
  "expressHubs haversine ns originalGraph failedGraph [] st = st"
| "expressHubs haversine ns originalGraph failedGraph (hi # majorHubs) st =
     (if length (fst st) < 40
      then expressHubs haversine ns originalGraph failedGraph majorHubs
             (expressInner haversine ns originalGraph failedGraph hi majorHubs st)
      else st)"

definition priorityOrder :: "candidate \<Rightarrow> candidate \<Rightarrow> real" where
  "priorityOrder a b = priority b - priority a"

definition generateCandidates ::
  "distance_fn \<Rightarrow> od_sort \<Rightarrow> node list \<Rightarrow> graph \<Rightarrow> graph \<Rightarrow> od_result list \<Rightarrow> candidate list" where
  "generateCandidates haversine odSort ns originalGraph failedGraph scenarioResults =
     (let busHubs = filter (\<lambda>n. node_type n = Some ''hub'' \<and> layer n = ''bus'') ns;
          st1 = hubNeighbors haversine ns originalGraph failedGraph busHubs ([], {});
          st2 = crossRail haversine ns originalGraph failedGraph st1;
          st3 = foldl (odStep haversine ns originalGraph failedGraph) st2
                  (topAffected odSort scenarioResults);
          majorHubs = filter (\<lambda>n. (node_type n = Some ''hub'' \<or> node_type n = Some ''station'') \<and>
                                   (layer n = ''bus'' \<or> layer n = ''metro'')) ns;
          st4 = expressHubs haversine ns originalGraph failedGraph majorHubs st3
      in take 30 (js_sort priorityOrder (fst st4)))"

text \<open>
  What \<^verbatim>\<open>addCandidate\<close> maintains: the key set holds the keys of the candidates, no two
  candidates join the same unordered pair, and no candidate joins a pair that has an edge
  in either graph.
\<close>

definition candInv :: "graph \<Rightarrow> graph \<Rightarrow> cand_state \<Rightarrow> bool" where
  "candInv originalGraph failedGraph st =
     (snd st = (\<lambda>c. c_from c @ ''_'' @ c_to c) ` set (fst st) \<and>
      distinct (map (\<lambda>c. {c_from c, c_to c}) (fst st)) \<and>
      (\<forall>c \<in> set (fst st). \<not> hasEdge failedGraph (c_from c) (c_to c) \<and>
                            \<not> hasEdge originalGraph (c_from c) (c_to c)))"

section \<open>Greedy recommender\<close>

text \<open>\<^verbatim>\<open>{...candidate, time, cost, transportMode}\<close>\<close>

record chosen = candidate +
  b_time :: real
  b_cost :: real
  b_transportMode :: string

text \<open>\<^verbatim>\<open>{...bestCandidate, improvement, metrics}\<close>\<close>

record recommendation = chosen +
  improvement :: jsnum
  rec_metrics :: "metrics option"

definition objectiveValue :: "string \<Rightarrow> metrics \<Rightarrow> jsnum" where
  "objectiveValue objective m =
     (if objective = ''time'' then avgTime m
      else if objective = ''cost'' then avgCost m
      else avgTransfers m)"

text \<open>The time, cost and mode a candidate gets, by its strategy tag.\<close>

definition candidateProperties :: "coefficients \<Rightarrow> candidate \<Rightarrow> real \<times> real \<times> string" where
  "candidateProperties co c =
     (if c_type c = ''hub_neighbor'' \<or> c_type c = ''express_hub'' then
        (((c_distance c / 35) * 60) * timeMultiplier co,
         (c_distance c * 3) * costMultiplier co, ''bus'')
      else if c_type c = ''cross_rail'' then
        (((c_distance c / 5) * 60) * timeMultiplier co, 0, ''walking'')
      else
        (((c_distance c / 25) * 60) * timeMultiplier co,
         (c_distance c * (25 / 10)) * costMultiplier co, ''bus''))"

definition candidateAttrs :: "string \<Rightarrow> real \<Rightarrow> real \<Rightarrow> string \<Rightarrow> real \<Rightarrow> edge_attrs" where
  "candidateAttrs objective t c m d =
     \<lparr>weight = Some (if objective = ''time'' then t
                     else if objective = ''cost'' then c
                     else t * (1 / 1000)),
      transportMode = m, mode = m, distance = d, time = t, cost = c,
      baseTime = None, baseCost = None, isInterModal = None\<rparr>"

definition chosenOf :: "candidate \<Rightarrow> real \<Rightarrow> real \<Rightarrow> string \<Rightarrow> chosen" where
  "chosenOf c t k m =
     \<lparr>c_from = c_from c, c_to = c_to c, fromName = fromName c, toName = toName c,
      c_type = c_type c, c_distance = c_distance c, priority = priority c,
      b_time = t, b_cost = k, b_transportMode = m\<rparr>"

definition recommendationOf :: "chosen \<Rightarrow> jsnum \<Rightarrow> metrics option \<Rightarrow> recommendation" where
  "recommendationOf b imp ms =
     \<lparr>c_from = c_from b, c_to = c_to b, fromName = fromName b, toName = toName b,
      c_type = c_type b, c_distance = c_distance b, priority = priority b,
      b_time = b_time b, b_cost = b_cost b, b_transportMode = b_transportMode b,
      improvement = imp, rec_metrics = ms\<rparr>"

text \<open>The variables a selection round updates while it scans the remaining candidates.\<close>

record round_state =
  bestCandidate :: "chosen option"
  bestImprovement :: jsnum
  bestMetrics :: "metrics option"

definition roundStart :: round_state where
  "roundStart = \<lparr>bestCandidate = None, bestImprovement = Fin 0, bestMetrics = None\<rparr>"

text \<open>
  The body of the scan: the candidate edge is inserted into a copy of the working graph
  and the metrics are recomputed; an insertion that throws is caught and skips the
  candidate.
\<close>

definition evaluateCandidate ::
  "library \<Rightarrow> od_pair list \<Rightarrow> string \<Rightarrow> coefficients \<Rightarrow> jsnum \<Rightarrow> graph \<Rightarrow>
     round_state \<Rightarrow> candidate \<Rightarrow> round_state" where
  "evaluateCandidate bidirectional odPairs objective co baselineValue workingGraph rs c =
     (case candidateProperties co c of
        (t, k, m) \<Rightarrow>
          (case addEdge workingGraph (c_from c) (c_to c)
                  (candidateAttrs objective t k m (c_distance c)) of
             Inl err \<Rightarrow> rs
           | Inr testGraph \<Rightarrow>
               (let testMetrics = computeMetrics bidirectional testGraph odPairs objective;
                    testValue = objectiveValue objective testMetrics;
                    imp = js_sub baselineValue testValue
                in if js_gt imp (bestImprovement rs)
                   then \<lparr>bestCandidate = Some (chosenOf c t k m), bestImprovement = imp,
                         bestMetrics = Some testMetrics\<rparr>
                   else rs)))"

text \<open>
  The object handed to \<^verbatim>\<open>progressCallback\<close>. The callback is code of the caller: it is
  modelled as an optional transformer of the caller's state \<open>'s\<close> that returns (a callback
  that throws would abort the run), and whose result the recommender ignores.
\<close>

record progress =
  p_iteration :: nat
  candidateIndex :: nat
  totalCandidates :: nat
  p_budget :: nat

type_synonym 's callback = "(progress \<Rightarrow> 's \<Rightarrow> 's) option"

definition report :: "'s callback \<Rightarrow> progress \<Rightarrow> 's \<Rightarrow> 's" where
  "report progressCallback p s = (case progressCallback of None \<Rightarrow> s | Some f \<Rightarrow> f p s)"

text \<open>
  The scan of a round, \<^verbatim>\<open>for (let i = 0; i < remainingCandidates.length; i++)\<close>: the
  callback is told the round, the index and the size of the pool, then the candidate is
  evaluated.
\<close>

fun scanCandidates ::
  "'s callback \<Rightarrow> library \<Rightarrow> od_pair list \<Rightarrow> string \<Rightarrow> coefficients \<Rightarrow> jsnum \<Rightarrow> graph \<Rightarrow>
     nat \<Rightarrow> nat \<Rightarrow> nat \<Rightarrow> nat \<Rightarrow> candidate list \<Rightarrow> round_state \<times> 's \<Rightarrow> round_state \<times> 's" where
  "scanCandidates progressCallback bidirectional odPairs objective co baselineValue workingGraph
     budget iteration poolSize i [] st = st"
| "scanCandidates progressCallback bidirectional odPairs objective co baselineValue workingGraph
     budget iteration poolSize i (c # cs) st =
     scanCandidates progressCallback bidirectional odPairs objective co baselineValue workingGraph
       budget iteration poolSize (Suc i) cs
       (evaluateCandidate bidirectional odPairs objective co baselineValue workingGraph (fst st) c,
        report progressCallback
          \<lparr>p_iteration = iteration, candidateIndex = i, totalCandidates = poolSize,
           p_budget = budget\<rparr> (snd st))"

text \<open>
  The selection loop
  \<^verbatim>\<open>for (let iteration = 0; iteration < budget && remainingCandidates.length > 0; iteration++)\<close>.
  It returns the selected links, the working graph and the caller's state.
\<close>

function greedyLoop ::
  "'s callback \<Rightarrow> library \<Rightarrow> od_pair list \<Rightarrow> string \<Rightarrow> coefficients \<Rightarrow> jsnum \<Rightarrow> nat \<Rightarrow> nat \<Rightarrow>
     graph \<Rightarrow> candidate list \<Rightarrow> recommendation list \<Rightarrow> 's \<Rightarrow>
     recommendation list \<times> graph \<times> 's" where
  "greedyLoop progressCallback bidirectional odPairs objective co baselineValue budget iteration
     workingGraph remainingCandidates selectedLinks s =
     (if iteration < budget \<and> remainingCandidates \<noteq> [] then
        (case scanCandidates progressCallback bidirectional odPairs objective co baselineValue
                workingGraph budget iteration (length remainingCandidates) 0
                remainingCandidates (roundStart, s) of
           (rs, s') \<Rightarrow>
             if js_le (bestImprovement rs) (Fin 0) \<or> bestCandidate rs = None
             then (selectedLinks, workingGraph, s')
             else
               (case bestCandidate rs of
                  None \<Rightarrow> (selectedLinks, workingGraph, s')
                | Some best \<Rightarrow>
                    (case addEdge workingGraph (c_from best) (c_to best)
                            (candidateAttrs objective (b_time best) (b_cost best)
                               (b_transportMode best) (c_distance best)) of
                       Inl err \<Rightarrow>
                         greedyLoop progressCallback bidirectional odPairs objective co
                           baselineValue budget (Suc iteration) workingGraph
                           remainingCandidates selectedLinks s'
                     | Inr workingGraph' \<Rightarrow>
                         greedyLoop progressCallback bidirectional odPairs objective co
                           baselineValue budget (Suc iteration) workingGraph'
                           (filter (\<lambda>c. \<not> (c_from c = c_from best \<and> c_to c = c_to best))
                              remainingCandidates)
                           (selectedLinks @
                              [recommendationOf best (bestImprovement rs) (bestMetrics rs)])
                           s')))
      else (selectedLinks, workingGraph, s))"
  by pat_completeness auto

termination greedyLoop
  by (relation "measure (\<lambda>(progressCallback, bidirectional, odPairs, objective, co,
        baselineValue, budget, iteration, rest). budget - iteration)") auto

record greedy_result =
  selectedLinks :: "recommendation list"
  finalGraph :: graph
  finalMetrics :: metrics

text \<open>The result object, and the caller's state after the callback's calls.\<close>

definition greedyRecommendation ::
  "library \<Rightarrow> graph \<Rightarrow> candidate list \<Rightarrow> od_pair list \<Rightarrow> nat \<Rightarrow> string \<Rightarrow> 's callback \<Rightarrow>
     coefficients option \<Rightarrow> 's \<Rightarrow> greedy_result \<times> 's" where
  "greedyRecommendation bidirectional failedGraph candidates odPairs budget objective
     progressCallback tod s =
     (let workingGraph = failedGraph;
          co = coefficientsOf tod;
          baselineMetrics = computeMetrics bidirectional workingGraph odPairs objective;
          baselineValue = objectiveValue objective baselineMetrics
      in case greedyLoop progressCallback bidirectional odPairs objective co baselineValue
                budget 0 workingGraph candidates [] s of
           (selected, final, s') \<Rightarrow>
             (\<lparr>selectedLinks = selected, finalGraph = final,
               finalMetrics = computeMetrics bidirectional final odPairs objective\<rparr>, s'))"

text \<open>
  The calls a round makes to the callback, for a pool of \<open>poolSize\<close> candidates, and the
  effect of a sequence of calls on the caller's state.
\<close>

definition roundEvents :: "nat \<Rightarrow> nat \<Rightarrow> nat \<Rightarrow> progress list" where
  "roundEvents budget iteration poolSize =
     map (\<lambda>i. \<lparr>p_iteration = iteration, candidateIndex = i, totalCandidates = poolSize,
               p_budget = budget\<rparr>) [0..<poolSize]"

definition reports :: "'s callback \<Rightarrow> progress list \<Rightarrow> 's \<Rightarrow> 's" where
  "reports progressCallback ps s = foldl (\<lambda>s p. report progressCallback p s) s ps"

text \<open>
  The objective value that inserting a candidate into a graph yields, when the insertion
  succeeds.
\<close>

definition valueWith ::
  "library \<Rightarrow> od_pair list \<Rightarrow> string \<Rightarrow> coefficients \<Rightarrow> graph \<Rightarrow> candidate \<Rightarrow> jsnum option" where
  "valueWith bidirectional odPairs objective co workingGraph c =
     (case candidateProperties co c of
        (t, k, m) \<Rightarrow>
          (case addEdge workingGraph (c_from c) (c_to c)
                  (candidateAttrs objective t k m (c_distance c)) of
             Inl err \<Rightarrow> None
           | Inr testGraph \<Rightarrow>
               Some (objectiveValue objective
                       (computeMetrics bidirectional testGraph odPairs objective))))"

text \<open>A candidate improves on the reference value: its insertion yields a strictly lower value.\<close>

definition improves ::
  "library \<Rightarrow> od_pair list \<Rightarrow> string \<Rightarrow> coefficients \<Rightarrow> jsnum \<Rightarrow> graph \<Rightarrow> candidate \<Rightarrow> bool" where
  "improves bidirectional odPairs objective co baselineValue workingGraph c =
     (case valueWith bidirectional odPairs objective co workingGraph c of
        None \<Rightarrow> False
      | Some v \<Rightarrow> js_lt v baselineValue)"

text \<open>What a scan has established after the candidates in \<open>S\<close>.\<close>

definition scanned ::
  "library \<Rightarrow> od_pair list \<Rightarrow> string \<Rightarrow> coefficients \<Rightarrow> jsnum \<Rightarrow> graph \<Rightarrow>
     round_state \<Rightarrow> candidate set \<Rightarrow> bool" where
  "scanned lib ods obj co base wg rs S =
     ((bestCandidate rs = None \<and> bestImprovement rs = Fin 0 \<and>
       (\<forall>c \<in> S. \<not> improves lib ods obj co base wg c)) \<or>
      (\<exists>b. bestCandidate rs = Some b \<and> js_gt (bestImprovement rs) (Fin 0) \<and>
         (\<exists>c \<in> S. c_from b = c_from c \<and> c_to b = c_to c \<and>
                   improves lib ods obj co base wg c)))"

section \<open>Example inputs\<close>

definition exNodeA :: node where
  "exNodeA = \<lparr>node_id = ''A_Metro'', lat = 0, lon = 0, layer = ''metro'',
     name = None, region = None, node_type = None\<rparr>"

definition exNodeB :: node where
  "exNodeB = \<lparr>node_id = ''B_Metro'', lat = 0, lon = 1, layer = ''metro'',
     name = None, region = None, node_type = None\<rparr>"

definition exMmtsEdge :: edge where
  "exMmtsEdge = \<lparr>from_id = ''A_Metro'', to_id = ''B_Metro'', edge_mode = Some ''mmts'',
     edge_type = None, distance_km = 3, time_min = 5, cost_rs = Some 10,
     intra_or_inter = Some ''intra''\<rparr>"

definition exBusEdge :: edge where
  "exBusEdge = \<lparr>from_id = ''A_Metro'', to_id = ''B_Metro'', edge_mode = Some ''bus'',
     edge_type = None, distance_km = 3, time_min = 9, cost_rs = Some 10,
     intra_or_inter = Some ''intra''\<rparr>"

definition exMetroEdge :: edge where
  "exMetroEdge = \<lparr>from_id = ''A_Metro'', to_id = ''B_Metro'', edge_mode = Some ''metro'',
     edge_type = None, distance_km = 3, time_min = 5, cost_rs = Some 45,
     intra_or_inter = Some ''intra''\<rparr>"

definition exMetroContext :: route_context where
  "exMetroContext = \<lparr>rc_source = Some ''A_Metro'', rc_target = Some ''B_Metro''\<rparr>"

definition exEdgeAttrs :: edge_attrs where
  "exEdgeAttrs = \<lparr>weight = Some 5, transportMode = ''metro'', mode = ''metro'', distance = 3,
     time = 5, cost = 20, baseTime = Some 5, baseCost = Some 20, isInterModal = Some False\<rparr>"

text \<open>Two metro stations whose identifiers contain an underscore, and the edge between them.\<close>

definition exStationGraph :: graph where
  "exStationGraph =
     \<lparr>nodes = [(''A_Metro'', exNodeA), (''B_Metro'', exNodeB)],
      edges = [(''A_Metro'', ''B_Metro'', exEdgeAttrs)]\<rparr>"

text \<open>
  Four stops: a one-minute bus from \<open>S\<close> to \<open>X\<close>, a metro from \<open>S\<close> over \<open>B\<close> to \<open>X\<close>
  (five minutes each), and a one-minute metro from \<open>X\<close> to \<open>T\<close>.
\<close>

definition exStop :: "string \<Rightarrow> node" where
  "exStop k = \<lparr>node_id = k, lat = 0, lon = 0, layer = ''bus'', name = None, region = None,
     node_type = None\<rparr>"

definition exLink :: "string \<Rightarrow> string \<Rightarrow> string \<Rightarrow> real \<Rightarrow> edge" where
  "exLink a b m t = \<lparr>from_id = a, to_id = b, edge_mode = Some m, edge_type = None,
     distance_km = 1, time_min = t, cost_rs = Some 5, intra_or_inter = Some ''intra''\<rparr>"

definition exTransferNodes :: "node list" where
  "exTransferNodes = [exStop ''S'', exStop ''X'', exStop ''B'', exStop ''T'']"

definition exTransferEdges :: "edge list" where
  "exTransferEdges =
     [exLink ''S'' ''X'' ''bus'' 1, exLink ''S'' ''B'' ''metro'' 5,
      exLink ''B'' ''X'' ''metro'' 5, exLink ''X'' ''T'' ''metro'' 1]"

definition exAttrs :: "string \<Rightarrow> real \<Rightarrow> real \<Rightarrow> edge_attrs" where
  "exAttrs m t c = \<lparr>weight = Some (t * (1 / 100)), transportMode = m, mode = m, distance = 1,
     time = t, cost = c, baseTime = Some t, baseCost = Some c, isInterModal = Some False\<rparr>"

definition exTransferGraph :: graph where
  "exTransferGraph =
     \<lparr>nodes = [(''S'', exStop ''S''), (''X'', exStop ''X''), (''B'', exStop ''B''),
               (''T'', exStop ''T'')],
      edges = [(''S'', ''X'', exAttrs ''bus'' 1 5), (''S'', ''B'', exAttrs ''metro'' 5 10),
               (''B'', ''X'', exAttrs ''metro'' 5 10), (''X'', ''T'', exAttrs ''metro'' 1 10)]\<rparr>"

text \<open>A library routine that never finds a path.\<close>

definition exNullLibrary :: library where
  "exNullLibrary g s t = Null"

text \<open>Two stops and no edge.\<close>

definition exIsolatedGraph :: graph where
  "exIsolatedGraph = \<lparr>nodes = [(''S'', exStop ''S''), (''T'', exStop ''T'')], edges = []\<rparr>"

text \<open>
  Three origin-destination pairs on the four stops: two reachable, and one whose target is
  missing.
\<close>

definition exPairs :: "od_pair list" where
  "exPairs =
     [\<lparr>od_source = ''S'', od_target = ''T'', od_sourceName = None, od_targetName = None\<rparr>,
      \<lparr>od_source = ''S'', od_target = ''Z'', od_sourceName = None, od_targetName = None\<rparr>,
      \<lparr>od_source = ''S'', od_target = ''X'', od_sourceName = None, od_targetName = None\<rparr>]"

text \<open>Two bus hubs about 2.2 km apart, under a distance that needs no trigonometry.\<close>

definition exDistance :: distance_fn where
  "exDistance lat1 lon1 lat2 lon2 = 111 * (\<bar>lat2 - lat1\<bar> + \<bar>lon2 - lon1\<bar>)"

definition exHub :: "string \<Rightarrow> real \<Rightarrow> node" where
  "exHub k x = \<lparr>node_id = k, lat = 0, lon = x, layer = ''bus'', name = Some k, region = None,
     node_type = Some ''hub''\<rparr>"

definition exHubNodes :: "node list" where
  "exHubNodes = [exHub ''C'' (2 / 100), exHub ''D'' (4 / 100)]"

text \<open>
  Six reachable results of a scenario run, with total times 15, 14, 10, 13, 12 and 11
  minutes, in this order.
\<close>

definition exOdResult :: "real \<Rightarrow> od_result" where
  "exOdResult t =
     \<lparr>path = Some [''S'', ''X'', ''T''], pathSegments = Some [], pathDistance = Fin 2,
      transfers = Fin 0, pathTime = Fin t, pathCost = Fin 15,
      r_source = ''S'', r_target = ''T'', r_sourceName = ''S'', r_targetName = ''T'',
      reachable = True\<rparr>"

definition exResults :: "od_result list" where
  "exResults = map exOdResult [15, 14, 10, 13, 12, 11]"

text \<open>A direct link between \<open>S\<close> and \<open>T\<close> of the four stops, 7 km long, and the pair it serves.\<close>

definition exCandidate :: candidate where
  "exCandidate = \<lparr>c_from = ''S'', c_to = ''T'', fromName = None, toName = None,
     c_type = ''hub_neighbor'', c_distance = 7, priority = 10\<rparr>"

definition exPairST :: od_pair where
  "exPairST = \<lparr>od_source = ''S'', od_target = ''T'', od_sourceName = None, od_targetName = None\<rparr>"

text \<open>
  A second candidate, between \<open>S\<close> and \<open>X\<close>, which the four stops already join by an
  edge, and a callback that appends every call to a log.
\<close>

definition exCandidateSX :: candidate where
  "exCandidateSX = \<lparr>c_from = ''S'', c_to = ''X'', fromName = None, toName = None,
     c_type = ''hub_neighbor'', c_distance = 2, priority = 10\<rparr>"

definition exLog :: "progress list callback" where
  "exLog = Some (\<lambda>p s. s @ [p])"

section \<open>Properties of the graph builder\<close>

lemmas builder_defs =
  buildGraph_def addNode_def hasNode_def emptyGraph_def addEdgeStep_def hasEdge_def addEdge_def
  edgeAttributes_def coefficientsOf_def defaultCoefficients_def preferMetro_def isMetroId_def
  endsWith_def joins_def weightOf_def adjustedCostOf_def adjustedTimeOf_def baseCostOf_def
  transportModeOf_def js_or_str_def calculateMetroFare_def TRANSFER_PENALTY_def

lemma edges_addNodes: "addNodes g ns = Inr g' \<Longrightarrow> edges g' = edges g"
  by (induction ns arbitrary: g) (auto simp: addNode_def split: sum.splits if_splits)

lemma addEdgeStep_edges:
  "x \<in> set (edges (addEdgeStep obj co pm g e)) \<Longrightarrow>
     x \<in> set (edges g) \<or> x = (from_id e, to_id e, edgeAttributes obj co pm e)"
  by (auto simp: addEdgeStep_def addEdge_def split: if_splits sum.splits)

lemma foldl_addEdgeStep_edges:
  "x \<in> set (edges (foldl (addEdgeStep obj co pm) g es)) \<Longrightarrow>
     x \<in> set (edges g) \<or> (\<exists>e \<in> set es. x = (from_id e, to_id e, edgeAttributes obj co pm e))"
proof (induction es arbitrary: g)
  case Nil
  then show ?case by simp
next
  case (Cons e es)
  from Cons.IH [OF Cons.prems [simplified]] show ?case
    using addEdgeStep_edges by fastforce
qed

text \<open>Every edge of a built graph carries the attributes computed from one input edge.\<close>

lemma buildGraph_edges:
  assumes "buildGraph ns es obj tod rc = Inr g" and "x \<in> set (edges g)"
  shows "\<exists>e \<in> set es.
           x = (from_id e, to_id e, edgeAttributes obj (coefficientsOf tod) (preferMetro rc) e)"
proof -
  from assms(1) obtain g0 where g0: "addNodes emptyGraph ns = Inr g0"
    and g: "g = foldl (addEdgeStep obj (coefficientsOf tod) (preferMetro rc)) g0 es"
    by (auto simp: buildGraph_def split: sum.splits)
  have "edges g0 = []" using edges_addNodes [OF g0] by (simp add: emptyGraph_def)
  with foldl_addEdgeStep_edges [of x obj "coefficientsOf tod" "preferMetro rc" g0 es] assms(2) g
  show ?thesis by auto
qed

lemma metro_bands:
  "(d \<le> 2 \<longrightarrow> calculateMetroFare d = 10) \<and>
   (2 < d \<and> d \<le> 4 \<longrightarrow> calculateMetroFare d = 20) \<and>
   (4 < d \<and> d \<le> 6 \<longrightarrow> calculateMetroFare d = 30) \<and>
   (6 < d \<and> d \<le> 9 \<longrightarrow> calculateMetroFare d = 40) \<and>
   (9 < d \<and> d \<le> 12 \<longrightarrow> calculateMetroFare d = 50) \<and>
   (12 < d \<and> d \<le> 15 \<longrightarrow> calculateMetroFare d = 60) \<and>
   (15 < d \<and> d \<le> 18 \<longrightarrow> calculateMetroFare d = 70) \<and>
   (18 < d \<and> d \<le> 21 \<longrightarrow> calculateMetroFare d = 80) \<and>
   (21 < d \<and> d \<le> 24 \<longrightarrow> calculateMetroFare d = 90) \<and>
   (24 < d \<longrightarrow> calculateMetroFare d = 100)"
  by (simp add: calculateMetroFare_def)

lemma exMetroGraph:
  "buildGraph [exNodeA, exNodeB] [exMetroEdge] ''cost'' None None =
     Inr \<lparr>nodes = [(''A_Metro'', exNodeA), (''B_Metro'', exNodeB)],
          edges = [(''A_Metro'', ''B_Metro'',
            \<lparr>weight = Some 20, transportMode = ''metro'', mode = ''metro'', distance = 3,
             time = 5, cost = 20, baseTime = Some 5, baseCost = Some 20,
             isInterModal = Some False\<rparr>)]\<rparr>"
  by (simp add: builder_defs exNodeA_def exNodeB_def exMetroEdge_def)

lemma exBusGraph:
  "buildGraph [exNodeA, exNodeB] [exBusEdge] ''cost'' None (Some exMetroContext) =
     Inr \<lparr>nodes = [(''A_Metro'', exNodeA), (''B_Metro'', exNodeB)],
          edges = [(''A_Metro'', ''B_Metro'',
            \<lparr>weight = Some 14, transportMode = ''bus'', mode = ''bus'', distance = 3,
             time = 9, cost = 14, baseTime = Some 9, baseCost = Some 10,
             isInterModal = Some False\<rparr>)]\<rparr>"
  by (simp add: builder_defs exNodeA_def exNodeB_def exBusEdge_def exMetroContext_def)

text \<open>
  Claim C9. Every edge of a graph built by \<open>buildGraph\<close> comes from an input edge; when
  that edge's transport mode is \<open>metro\<close> its stored base cost is the fare of its distance
  band (up to 2 km: 10, up to 4: 20, up to 6: 30, up to 9: 40, up to 12: 50, up to 15: 60,
  up to 18: 70, up to 21: 80, up to 24: 90, beyond: 100), whatever cost the dataset
  supplied; for every other mode the base cost is the supplied cost, 0 when absent.
\<close>

theorem C9_base_cost:
  assumes "buildGraph ns es objective tod rc = Inr g"
    and "(a, b, attrs) \<in> set (edges g)"
  shows "\<exists>e \<in> set es. from_id e = a \<and> to_id e = b \<and> transportMode attrs = transportModeOf e \<and>
     (transportModeOf e = ''metro'' \<longrightarrow>
        (distance_km e \<le> 2 \<longrightarrow> baseCost attrs = Some 10) \<and>
        (2 < distance_km e \<and> distance_km e \<le> 4 \<longrightarrow> baseCost attrs = Some 20) \<and>
        (4 < distance_km e \<and> distance_km e \<le> 6 \<longrightarrow> baseCost attrs = Some 30) \<and>
        (6 < distance_km e \<and> distance_km e \<le> 9 \<longrightarrow> baseCost attrs = Some 40) \<and>
        (9 < distance_km e \<and> distance_km e \<le> 12 \<longrightarrow> baseCost attrs = Some 50) \<and>
        (12 < distance_km e \<and> distance_km e \<le> 15 \<longrightarrow> baseCost attrs = Some 60) \<and>
        (15 < distance_km e \<and> distance_km e \<le> 18 \<longrightarrow> baseCost attrs = Some 70) \<and>
        (18 < distance_km e \<and> distance_km e \<le> 21 \<longrightarrow> baseCost attrs = Some 80) \<and>
        (21 < distance_km e \<and> distance_km e \<le> 24 \<longrightarrow> baseCost attrs = Some 90) \<and>
        (24 < distance_km e \<longrightarrow> baseCost attrs = Some 100)) \<and>
     (transportModeOf e \<noteq> ''metro'' \<longrightarrow>
        baseCost attrs = Some (case cost_rs e of None \<Rightarrow> 0 | Some c \<Rightarrow> c))"
proof -
  from buildGraph_edges [OF assms] obtain e where e: "e \<in> set es"
    and x: "(a, b, attrs) =
      (from_id e, to_id e, edgeAttributes objective (coefficientsOf tod) (preferMetro rc) e)"
    by blast
  from x have ab: "from_id e = a" "to_id e = b"
    and at: "attrs = edgeAttributes objective (coefficientsOf tod) (preferMetro rc) e"
    by simp_all
  have tm: "transportMode attrs = transportModeOf e" by (simp add: at edgeAttributes_def)
  have bc: "baseCost attrs = Some (baseCostOf e)" by (simp add: at edgeAttributes_def)
  have m: "transportModeOf e = ''metro'' \<Longrightarrow> baseCostOf e = calculateMetroFare (distance_km e)"
    by (simp add: baseCostOf_def)
  have o: "transportModeOf e \<noteq> ''metro'' \<Longrightarrow>
      baseCostOf e = (case cost_rs e of None \<Rightarrow> 0 | Some c \<Rightarrow> c)"
    by (simp add: baseCostOf_def)
  show ?thesis
    using e ab tm bc m o metro_bands [of "distance_km e"] by (intro bexI [of _ e]) auto
qed

theorem C9_base_cost_witness:
  "buildGraph [exNodeA, exNodeB] [exMetroEdge] ''cost'' None None =
     Inr \<lparr>nodes = [(''A_Metro'', exNodeA), (''B_Metro'', exNodeB)],
          edges = [(''A_Metro'', ''B_Metro'',
            \<lparr>weight = Some 20, transportMode = ''metro'', mode = ''metro'', distance = 3,
             time = 5, cost = 20, baseTime = Some 5, baseCost = Some 20,
             isInterModal = Some False\<rparr>)]\<rparr> \<and>
   transportModeOf exMetroEdge = ''metro'' \<and> cost_rs exMetroEdge = Some 45 \<and>
   2 < distance_km exMetroEdge \<and> distance_km exMetroEdge \<le> 4"
proof -
  let ?attrs = "\<lparr>weight = Some 20, transportMode = ''metro'', mode = ''metro'', distance = 3,
     time = 5, cost = 20, baseTime = Some 5, baseCost = Some (20::real),
     isInterModal = Some False\<rparr>"
  let ?g = "\<lparr>nodes = [(''A_Metro'', exNodeA), (''B_Metro'', exNodeB)],
     edges = [(''A_Metro'', ''B_Metro'', ?attrs)]\<rparr>"
  have mem: "(''A_Metro'', ''B_Metro'', ?attrs) \<in> set (edges ?g)" by simp
  have m: "transportModeOf exMetroEdge = ''metro''" "cost_rs exMetroEdge = Some 45"
    "2 < distance_km exMetroEdge" "distance_km exMetroEdge \<le> 4"
    by (simp_all add: transportModeOf_def js_or_str_def exMetroEdge_def)
  from C9_base_cost [OF exMetroGraph mem]
  have "transportModeOf exMetroEdge = ''metro''" by simp
  with exMetroGraph m(2,3,4) show ?thesis by simp
qed

text \<open>
  Claim C5, as the code has it. When the route context's source and target identifiers
  both end in \<open>_Metro\<close>, the adjusted cost of an edge of the built graph is 1.4 times its
  time-of-day adjusted cost exactly when the edge's mode is not \<open>metro\<close> and its
  \<open>intra_or_inter\<close> tag is not \<open>inter\<close>; metro edges and \<open>inter\<close> edges keep their
  adjusted cost. Edges of the other rail mode (\<open>mmts\<close>) that are not \<open>inter\<close> are
  multiplied like bus edges.
\<close>

theorem C5_metro_preference:
  assumes "endsWith s ''_Metro''" and "endsWith t ''_Metro''"
    and "buildGraph ns es objective tod (Some \<lparr>rc_source = Some s, rc_target = Some t\<rparr>) = Inr g"
    and "(a, b, attrs) \<in> set (edges g)"
  shows "\<exists>e \<in> set es. from_id e = a \<and> to_id e = b \<and> transportMode attrs = transportModeOf e \<and>
     cost attrs =
       (if transportModeOf e \<noteq> ''metro'' \<and> intra_or_inter e \<noteq> Some ''inter''
        then adjustedCostOf (coefficientsOf tod) False e * (14 / 10)
        else adjustedCostOf (coefficientsOf tod) False e)"
proof -
  let ?rc = "Some \<lparr>rc_source = Some s, rc_target = Some t\<rparr>"
  have pm: "preferMetro ?rc" using assms(1,2) by (simp add: preferMetro_def isMetroId_def)
  from buildGraph_edges [OF assms(3,4)] pm obtain e where e: "e \<in> set es"
    and x: "(a, b, attrs) = (from_id e, to_id e, edgeAttributes objective (coefficientsOf tod) True e)"
    by auto
  from x have "from_id e = a" "to_id e = b" "transportMode attrs = transportModeOf e"
    "cost attrs = adjustedCostOf (coefficientsOf tod) True e"
    by (simp_all add: edgeAttributes_def)
  with e show ?thesis
    by (intro bexI [of _ e]) (auto simp: adjustedCostOf_def Let_def)
qed

theorem C5_metro_preference_witness:
  "endsWith ''A_Metro'' ''_Metro'' \<and> endsWith ''B_Metro'' ''_Metro'' \<and>
   buildGraph [exNodeA, exNodeB] [exBusEdge] ''cost'' None (Some exMetroContext) =
     Inr \<lparr>nodes = [(''A_Metro'', exNodeA), (''B_Metro'', exNodeB)],
          edges = [(''A_Metro'', ''B_Metro'',
            \<lparr>weight = Some 14, transportMode = ''bus'', mode = ''bus'', distance = 3,
             time = 9, cost = 14, baseTime = Some 9, baseCost = Some 10,
             isInterModal = Some False\<rparr>)]\<rparr> \<and>
   adjustedCostOf (coefficientsOf None) False exBusEdge = 10"
proof -
  let ?attrs = "\<lparr>weight = Some 14, transportMode = ''bus'', mode = ''bus'', distance = 3,
     time = 9, cost = (14::real), baseTime = Some 9, baseCost = Some 10,
     isInterModal = Some False\<rparr>"
  let ?g = "\<lparr>nodes = [(''A_Metro'', exNodeA), (''B_Metro'', exNodeB)],
     edges = [(''A_Metro'', ''B_Metro'', ?attrs)]\<rparr>"
  have s: "endsWith ''A_Metro'' ''_Metro''" and t: "endsWith ''B_Metro'' ''_Metro''"
    by (simp_all add: endsWith_def)
  have b: "buildGraph [exNodeA, exNodeB] [exBusEdge] ''cost'' None
      (Some \<lparr>rc_source = Some ''A_Metro'', rc_target = Some ''B_Metro''\<rparr>) = Inr ?g"
    using exBusGraph by (simp add: exMetroContext_def)
  have mem: "(''A_Metro'', ''B_Metro'', ?attrs) \<in> set (edges ?g)" by simp
  from C5_metro_preference [OF s t b mem]
  have "adjustedCostOf (coefficientsOf None) False exBusEdge * (14 / 10) = 14"
    by (simp add: transportModeOf_def js_or_str_def exBusEdge_def)
  then have "adjustedCostOf (coefficientsOf None) False exBusEdge = 10" by simp
  with s t exBusGraph show ?thesis by simp
qed

text \<open>
  The claim as stated fails on an \<open>mmts\<close> edge: with a Metro-to-Metro route context its
  adjusted cost is 14, while its time-of-day adjusted cost is 10.
\<close>

theorem C5_counterexample:
  "transportModeOf exMmtsEdge = ''mmts'' \<and>
   buildGraph [exNodeA, exNodeB] [exMmtsEdge] ''cost'' None (Some exMetroContext) =
     Inr \<lparr>nodes = [(''A_Metro'', exNodeA), (''B_Metro'', exNodeB)],
          edges = [(''A_Metro'', ''B_Metro'',
            \<lparr>weight = Some 14, transportMode = ''mmts'', mode = ''mmts'', distance = 3,
             time = 5, cost = 14, baseTime = Some 5, baseCost = Some 10,
             isInterModal = Some False\<rparr>)]\<rparr> \<and>
   buildGraph [exNodeA, exNodeB] [exMmtsEdge] ''cost'' None None =
     Inr \<lparr>nodes = [(''A_Metro'', exNodeA), (''B_Metro'', exNodeB)],
          edges = [(''A_Metro'', ''B_Metro'',
            \<lparr>weight = Some 10, transportMode = ''mmts'', mode = ''mmts'', distance = 3,
             time = 5, cost = 10, baseTime = Some 5, baseCost = Some 10,
             isInterModal = Some False\<rparr>)]\<rparr>"
  by (simp add: builder_defs exNodeA_def exNodeB_def exMmtsEdge_def exMetroContext_def)

section \<open>Properties of the failure simulator\<close>

lemma split_underscore_nonempty: "split_underscore s \<noteq> []"
  by (induction s) (auto split: list.splits)

lemma join_split_underscore: "join_underscore (split_underscore s) = s"
proof (induction s)
  case Nil
  then show ?case by simp
next
  case (Cons c cs)
  show ?case
  proof (cases "split_underscore cs")
    case Nil
    with split_underscore_nonempty show ?thesis by blast
  next
    case (Cons t ts)
    with Cons.IH show ?thesis by (cases ts) auto
  qed
qed

lemma split_underscore_tokens: "t \<in> set (split_underscore s) \<Longrightarrow> CHR ''_'' \<notin> set t"
  by (induction s arbitrary: t) (auto split: if_splits list.splits)

lemma edgeEndpoints_tokens:
  "\<exists>a rest. split_underscore t = a # rest \<and>
     edgeEndpoints t = (a, case rest of [] \<Rightarrow> ''undefined'' | b # others \<Rightarrow> b)"
  using split_underscore_nonempty [of t]
  by (cases "split_underscore t") (auto simp: edgeEndpoints_def split: list.splits)

lemma edgeEndpoints_fst_no_underscore: "CHR ''_'' \<notin> set (fst (edgeEndpoints t))"
  using split_underscore_tokens [of _ t] split_underscore_nonempty [of t]
  by (auto simp: edgeEndpoints_def split: list.splits)

lemma edgeEndpoints_snd_no_underscore: "CHR ''_'' \<notin> set (snd (edgeEndpoints t))"
  using split_underscore_tokens [of _ t] split_underscore_nonempty [of t]
  by (auto simp: edgeEndpoints_def split: list.splits)

lemma failNode_frame:
  "length (failNode f st n) = length st \<and> (\<forall>q. q \<noteq> f \<longrightarrow> failNode f st n ! q = st ! q)"
  by (simp add: failNode_def)

lemma failEdge_frame:
  "length (failEdge f st n) = length st \<and> (\<forall>q. q \<noteq> f \<longrightarrow> failEdge f st n ! q = st ! q)"
  by (simp add: failEdge_def split: prod.splits)

lemma foldl_frame:
  assumes "\<And>s x. length (step s x) = length s \<and> (\<forall>q. q \<noteq> f \<longrightarrow> step s x ! q = s ! q)"
  shows "length (foldl step st xs) = length st \<and>
         (\<forall>q. q \<noteq> f \<longrightarrow> foldl step st xs ! q = st ! q)"
  by (induction xs arbitrary: st) (simp_all add: assms)

lemma applyFailure_frame:
  assumes "applyFailure st graph failureType failureTargets = (failed, st')"
  shows "failed = length st \<and> length st' = Suc (length st) \<and> (\<forall>q < length st. st' ! q = st ! q)"
proof -
  let ?st1 = "st @ [st ! graph]"
  have a: "length (foldl (failNode (length st)) ?st1 failureTargets) = length ?st1 \<and>
      (\<forall>q. q \<noteq> length st \<longrightarrow> foldl (failNode (length st)) ?st1 failureTargets ! q = ?st1 ! q)"
    by (rule foldl_frame) (rule failNode_frame)
  have b: "length (foldl (failEdge (length st)) ?st1 failureTargets) = length ?st1 \<and>
      (\<forall>q. q \<noteq> length st \<longrightarrow> foldl (failEdge (length st)) ?st1 failureTargets ! q = ?st1 ! q)"
    by (rule foldl_frame) (rule failEdge_frame)
  have c: "length (foldl (\<lambda>s n. s[length st := dropNode (s ! length st) n]) ?st1 xs) = length ?st1 \<and>
      (\<forall>q. q \<noteq> length st \<longrightarrow>
         foldl (\<lambda>s n. s[length st := dropNode (s ! length st) n]) ?st1 xs ! q = ?st1 ! q)" for xs
    by (rule foldl_frame) simp
  show ?thesis
    using assms a b c
    by (auto simp: applyFailure_def copy_def nth_append split: if_splits)
qed

lemma foldl_failNode_nomatch:
  "\<forall>t \<in> set ts. \<not> hasNode (s ! f) t \<Longrightarrow> foldl (failNode f) s ts = s"
  by (induction ts arbitrary: s) (simp_all add: failNode_def)

lemma foldl_failEdge_nomatch:
  "\<forall>t \<in> set ts. \<not> hasEdge (s ! f) (fst (edgeEndpoints t)) (snd (edgeEndpoints t)) \<Longrightarrow>
     foldl (failEdge f) s ts = s"
  by (induction ts arbitrary: s) (auto simp: failEdge_def split: prod.splits)

lemma layerNodes_nomatch:
  "\<forall>p \<in> set (nodes g). layer (snd p) \<notin> set ts \<Longrightarrow> layerNodes g ts = []"
  by (simp add: layerNodes_def)

lemma applyFailure_nomatch:
  assumes "applyFailure st graph failureType failureTargets = (failed, st')"
    and "failureTargets = [] \<or>
      (failureType = ''node'' \<and> (\<forall>t \<in> set failureTargets. \<not> hasNode (st ! graph) t)) \<or>
      (failureType = ''edge'' \<and>
         (\<forall>t \<in> set failureTargets.
            \<not> hasEdge (st ! graph) (fst (edgeEndpoints t)) (snd (edgeEndpoints t)))) \<or>
      (failureType = ''layer'' \<and>
         (\<forall>p \<in> set (nodes (st ! graph)). layer (snd p) \<notin> set failureTargets))"
  shows "st' ! failed = st ! graph"
proof -
  let ?st1 = "st @ [st ! graph]"
  have g: "?st1 ! length st = st ! graph" by simp
  from assms(2) consider
    (empty) "failureTargets = []" |
    (node) "failureTargets \<noteq> []" "failureType = ''node''"
      "\<forall>t \<in> set failureTargets. \<not> hasNode (?st1 ! length st) t" |
    (edge) "failureTargets \<noteq> []" "failureType = ''edge''"
      "\<forall>t \<in> set failureTargets.
         \<not> hasEdge (?st1 ! length st) (fst (edgeEndpoints t)) (snd (edgeEndpoints t))" |
    (layer) "failureTargets \<noteq> []" "failureType = ''layer''"
      "\<forall>p \<in> set (nodes (?st1 ! length st)). layer (snd p) \<notin> set failureTargets"
    by (cases "failureTargets = []") auto
  then show ?thesis
  proof cases
    case empty
    with assms(1) show ?thesis by (auto simp: applyFailure_def copy_def)
  next
    case node
    from foldl_failNode_nomatch [OF node(3)] node(1,2) assms(1) show ?thesis
      by (auto simp: applyFailure_def copy_def)
  next
    case edge
    from foldl_failEdge_nomatch [OF edge(3)] edge(1,2) assms(1) show ?thesis
      by (auto simp: applyFailure_def copy_def)
  next
    case layer
    from layerNodes_nomatch [OF layer(3)] layer(1,2) assms(1) show ?thesis
      by (auto simp: applyFailure_def copy_def)
  qed
qed

lemma foldl_failEdge_graph:
  assumes "f < length s"
  shows "foldl (failEdge f) s ts ! f =
    (s ! f)\<lparr>edges := filter (\<lambda>e. \<forall>t \<in> set ts.
        \<not> joins (fst (edgeEndpoints t)) (snd (edgeEndpoints t)) e) (edges (s ! f))\<rparr>"
  using assms
proof (induction ts arbitrary: s)
  case Nil
  then show ?case by simp
next
  case (Cons t ts)
  obtain a b where ab: "edgeEndpoints t = (a, b)" by (cases "edgeEndpoints t")
  show ?case
  proof (cases "hasEdge (s ! f) a b")
    case True
    then have step: "failEdge f s t = s[f := dropEdge (s ! f) a b]"
      by (simp add: failEdge_def ab)
    have len: "f < length (s[f := dropEdge (s ! f) a b])" using Cons.prems by simp
    show ?thesis
      using Cons.IH [OF len] Cons.prems
      by (simp add: step ab dropEdge_def conj_commute cong: filter_cong)
  next
    case False
    then have step: "failEdge f s t = s" by (simp add: failEdge_def ab)
    from False have "filter (\<lambda>e. \<not> joins a b e) (edges (s ! f)) = edges (s ! f)"
      by (auto simp: hasEdge_def filter_id_conv)
    then have "filter (\<lambda>e. \<not> joins a b e \<and> P e) (edges (s ! f)) = filter P (edges (s ! f))" for P
      by (metis filter_filter)
    then show ?thesis
      using Cons.IH [OF Cons.prems] by (simp add: step ab)
  qed
qed


text \<open>
  Claim C2. For every store of graphs, every valid reference \<open>graph\<close>, every failure kind
  and every target list, \<open>applyFailure\<close> leaves every graph object that existed before
  the call as it was (the argument among them), and returns a reference to an object that
  did not exist before the call. When the target list is empty, or no target names a node,
  an edge or a layer of the graph, the new object is an exact copy of the argument.
\<close>

theorem C2_applyFailure_frame:
  assumes "graph < length st"
    and "applyFailure st graph failureType failureTargets = (failed, st')"
  shows "st' ! graph = st ! graph \<and> (\<forall>q < length st. st' ! q = st ! q) \<and>
     failed = length st \<and> failed \<noteq> graph \<and> length st' = Suc (length st) \<and>
     (failureTargets = [] \<or>
      (failureType = ''node'' \<and> (\<forall>t \<in> set failureTargets. \<not> hasNode (st ! graph) t)) \<or>
      (failureType = ''edge'' \<and>
         (\<forall>t \<in> set failureTargets.
            \<not> hasEdge (st ! graph) (fst (edgeEndpoints t)) (snd (edgeEndpoints t)))) \<or>
      (failureType = ''layer'' \<and>
         (\<forall>p \<in> set (nodes (st ! graph)). layer (snd p) \<notin> set failureTargets))
      \<longrightarrow> st' ! failed = st ! graph)"
proof -
  from applyFailure_frame [OF assms(2)]
  have fr: "failed = length st" "length st' = Suc (length st)" "\<forall>q < length st. st' ! q = st ! q"
    by simp_all
  from fr(3) assms(1) have same: "st' ! graph = st ! graph" by simp
  from fr(1) assms(1) have fresh: "failed \<noteq> graph" by simp
  from applyFailure_nomatch [OF assms(2)] same fr fresh show ?thesis by blast
qed

lemma exNodeFailure:
  "applyFailure [exStationGraph] 0 ''node'' [''A_Metro''] =
     (1, [exStationGraph, \<lparr>nodes = [(''B_Metro'', exNodeB)], edges = []\<rparr>])"
  by (simp add: applyFailure_def copy_def failNode_def hasNode_def dropNode_def
      exStationGraph_def)

theorem C2_applyFailure_frame_witness:
  "(0::nat) < length [exStationGraph] \<and>
   applyFailure [exStationGraph] 0 ''node'' [''A_Metro''] =
     (1, [exStationGraph, \<lparr>nodes = [(''B_Metro'', exNodeB)], edges = []\<rparr>]) \<and>
   [exStationGraph, \<lparr>nodes = [(''B_Metro'', exNodeB)], edges = []\<rparr>] ! 0 = [exStationGraph] ! 0 \<and>
   (1::nat) = length [exStationGraph]"
proof -
  have v: "(0::nat) < length [exStationGraph]" by simp
  from C2_applyFailure_frame [OF v exNodeFailure]
  have "[exStationGraph, \<lparr>nodes = [(''B_Metro'', exNodeB)], edges = []\<rparr>] ! 0 = [exStationGraph] ! 0"
    and "(1::nat) = length [exStationGraph]"
    by blast+
  with v exNodeFailure show ?thesis by blast
qed

text \<open>
  Claim C10. With kind \<open>edge\<close>, every target string is split at every underscore (the
  pieces contain no underscore and, joined by underscores, give the target back), and only
  the first two pieces serve as endpoints (a missing second piece reads \<open>undefined\<close>).
  The resulting graph has the argument's nodes, and exactly those of its edges that no
  target's first two pieces join. Hence an edge with an underscore in one of its node
  identifiers is never removed, whatever the targets are.
\<close>

theorem C10_edge_failure_tokens:
  assumes "graph < length st"
    and "applyFailure st graph ''edge'' failureTargets = (failed, st')"
  shows "(\<forall>t \<in> set failureTargets. \<exists>a rest.
            split_underscore t = a # rest \<and> join_underscore (a # rest) = t \<and>
            (\<forall>tok \<in> set (a # rest). CHR ''_'' \<notin> set tok) \<and>
            edgeEndpoints t = (a, case rest of [] \<Rightarrow> ''undefined'' | b # others \<Rightarrow> b)) \<and>
     nodes (st' ! failed) = nodes (st ! graph) \<and>
     edges (st' ! failed) =
       filter (\<lambda>e. \<forall>t \<in> set failureTargets.
                 \<not> joins (fst (edgeEndpoints t)) (snd (edgeEndpoints t)) e)
         (edges (st ! graph)) \<and>
     (\<forall>e \<in> set (edges (st ! graph)).
        CHR ''_'' \<in> set (fst e) \<or> CHR ''_'' \<in> set (fst (snd e)) \<longrightarrow>
        e \<in> set (edges (st' ! failed)))"
proof -
  let ?st1 = "st @ [st ! graph]"
  let ?keep = "\<lambda>e. \<forall>t \<in> set failureTargets.
                 \<not> joins (fst (edgeEndpoints t)) (snd (edgeEndpoints t)) e"
  have tokens: "\<exists>a rest. split_underscore t = a # rest \<and> join_underscore (a # rest) = t \<and>
      (\<forall>tok \<in> set (a # rest). CHR ''_'' \<notin> set tok) \<and>
      edgeEndpoints t = (a, case rest of [] \<Rightarrow> ''undefined'' | b # others \<Rightarrow> b)" for t
  proof -
    from edgeEndpoints_tokens [of t] obtain a rest where sp: "split_underscore t = a # rest"
      and ep: "edgeEndpoints t = (a, case rest of [] \<Rightarrow> ''undefined'' | b # others \<Rightarrow> b)"
      by blast
    from join_split_underscore [of t] sp have "join_underscore (a # rest) = t" by simp
    moreover from split_underscore_tokens [of _ t] sp
    have "\<forall>tok \<in> set (a # rest). CHR ''_'' \<notin> set tok" by simp
    ultimately show ?thesis using sp ep by blast
  qed
  have res: "st' ! failed = (st ! graph)\<lparr>edges := filter ?keep (edges (st ! graph))\<rparr>"
  proof (cases "failureTargets = []")
    case True
    with assms(2) show ?thesis by (auto simp: applyFailure_def copy_def)
  next
    case False
    have len: "length st < length ?st1" by simp
    from False assms(2) have "failed = length st"
      and "st' = foldl (failEdge (length st)) ?st1 failureTargets"
      by (auto simp: applyFailure_def copy_def)
    with foldl_failEdge_graph [OF len, of failureTargets] show ?thesis by simp
  qed
  have kept: "e \<in> set (edges (st' ! failed))"
    if e: "e \<in> set (edges (st ! graph))"
      and u: "CHR ''_'' \<in> set (fst e) \<or> CHR ''_'' \<in> set (fst (snd e))" for e
  proof -
    have "?keep e"
      using u edgeEndpoints_fst_no_underscore edgeEndpoints_snd_no_underscore
      by (auto simp: joins_def)
    with e res show ?thesis by simp
  qed
  from tokens res kept show ?thesis by simp
qed

lemma exEdgeFailure:
  "applyFailure [exStationGraph] 0 ''edge'' [''A_Metro_B_Metro''] =
     (1, [exStationGraph, exStationGraph])"
  by (simp add: applyFailure_def copy_def failEdge_def edgeEndpoints_def hasEdge_def joins_def
      exStationGraph_def)

theorem C10_edge_failure_tokens_witness:
  "(0::nat) < length [exStationGraph] \<and>
   applyFailure [exStationGraph] 0 ''edge'' [''A_Metro_B_Metro''] =
     (1, [exStationGraph, exStationGraph]) \<and>
   edgeEndpoints ''A_Metro_B_Metro'' = (''A'', ''Metro'') \<and>
   edges ([exStationGraph, exStationGraph] ! 1) = [(''A_Metro'', ''B_Metro'', exEdgeAttrs)]"
proof -
  have v: "(0::nat) < length [exStationGraph]" by simp
  have ep: "edgeEndpoints ''A_Metro_B_Metro'' = (''A'', ''Metro'')"
    by (simp add: edgeEndpoints_def)
  from C10_edge_failure_tokens [OF v exEdgeFailure]
  have "edges ([exStationGraph, exStationGraph] ! 1) =
      filter (\<lambda>e. \<forall>t \<in> set [''A_Metro_B_Metro''].
                 \<not> joins (fst (edgeEndpoints t)) (snd (edgeEndpoints t)) e)
        (edges ([exStationGraph] ! 0))"
    by blast
  then have "edges ([exStationGraph, exStationGraph] ! 1) =
      [(''A_Metro'', ''B_Metro'', exEdgeAttrs)]"
    by (simp add: ep joins_def exStationGraph_def)
  with v exEdgeFailure ep show ?thesis by blast
qed

section \<open>Properties of the shortest-path engine\<close>

lemma set_js_insert: "set (js_insert cmp x xs) = insert x (set xs)"
  by (induction xs) auto

lemma set_js_sort: "set (js_sort cmp xs) = set xs"
  by (induction xs) (auto simp: set_js_insert)

lemma length_js_insert: "length (js_insert cmp x xs) = Suc (length xs)"
  by (induction xs) auto

lemma length_js_sort: "length (js_sort cmp xs) = length xs"
  by (induction xs) (auto simp: length_js_insert)

lemma getEdgeAttributes_Inr:
  "getEdgeAttributes g a b = Inr edge \<Longrightarrow> \<exists>e \<in> set (edges g). joins a b e \<and> snd (snd e) = edge"
  by (auto simp: getEdgeAttributes_def find_Some_iff split: option.splits)

lemma finite_edgeKeys: "finite (edgeKeys g)"
  by (simp add: edgeKeys_def)

lemma relax_keys:
  "stateKey ` set (snd (relax g cur st n)) \<subseteq> stateKey ` set (snd st) \<union> edgeKeys g"
proof (cases "getEdgeAttributes g (q_node cur) n")
  case (Inl err)
  then show ?thesis by (simp add: relax_def)
next
  case (Inr edge)
  from getEdgeAttributes_Inr [OF Inr] obtain e where e: "e \<in> set (edges g)"
    and j: "joins (q_node cur) n e" and a: "snd (snd e) = edge" by blast
  from j have "n = fst e \<or> n = fst (snd e)" by (auto simp: joins_def)
  with e a have "n @ ''_'' @ edgeModeOf edge \<in> edgeKeys g"
    by (auto simp: edgeKeys_def)
  then show ?thesis
    by (auto simp: relax_def Inr Let_def stateKey_def)
qed

lemma foldl_relax_keys:
  "stateKey ` set (snd (foldl (relax g cur) st ns)) \<subseteq> stateKey ` set (snd st) \<union> edgeKeys g"
proof (induction ns arbitrary: st)
  case Nil
  then show ?case by simp
next
  case (Cons n ns)
  from Cons.IH [of "relax g cur st n"] relax_keys [of g cur st n]
  show ?case by auto
qed

termination searchLoop
proof (relation "(\<lambda>(g, target, queue, visited, best).
          card ((stateKey ` set queue \<union> edgeKeys g) - visited)) <*mlex*>
        measure (\<lambda>(g, target, queue, visited, best). length queue)")
  show "wf ((\<lambda>(g, target, queue, visited, best).
          card ((stateKey ` set queue \<union> edgeKeys g) - visited)) <*mlex*>
        measure (\<lambda>(g, target, queue, visited, best). length (queue :: qentry list)))"
    by (simp add: wf_mlex)
next
  fix g :: graph and target :: string and queue :: "qentry list" and visited :: "string set"
    and best :: "string \<rightharpoonup> nat \<times> real" and current rest
  assume s: "js_sort queueOrder queue = current # rest"
  from s have sub: "set rest \<subseteq> set queue"
    using set_js_sort [of queueOrder queue] by auto
  from s have len: "length rest < length queue"
    using length_js_sort [of queueOrder queue] by simp
  have fin: "finite ((stateKey ` set queue \<union> edgeKeys g) - visited)"
    by (simp add: finite_edgeKeys)
  from sub have "(stateKey ` set rest \<union> edgeKeys g) - visited
      \<subseteq> (stateKey ` set queue \<union> edgeKeys g) - visited" by auto
  from card_mono [OF fin this] len
  show "((g, target, rest, visited, best), (g, target, queue, visited, best))
      \<in> (\<lambda>(g, target, queue, visited, best).
          card ((stateKey ` set queue \<union> edgeKeys g) - visited)) <*mlex*>
        measure (\<lambda>(g, target, queue, visited, best). length queue)"
    by (auto simp: mlex_iff)
next
  fix g :: graph and target :: string and queue :: "qentry list" and visited :: "string set"
    and best :: "string \<rightharpoonup> nat \<times> real" and current rest best' queue'
  assume s: "js_sort queueOrder queue = current # rest"
    and nv: "stateKey current \<notin> visited"
    and x: "(best', queue') = foldl (relax g current) (best, rest) (neighborKeys g (q_node current))"
  from s have cur: "current \<in> set queue" and sub: "set rest \<subseteq> set queue"
    using set_js_sort [of queueOrder queue] by auto
  from x have q': "queue' = snd (foldl (relax g current) (best, rest) (neighborKeys g (q_node current)))"
    by (metis snd_conv)
  from foldl_relax_keys [of g current "(best, rest)" "neighborKeys g (q_node current)"] q' sub
  have keys: "stateKey ` set queue' \<subseteq> stateKey ` set queue \<union> edgeKeys g" by auto
  have fin: "finite ((stateKey ` set queue \<union> edgeKeys g) - visited)"
    by (simp add: finite_edgeKeys)
  from keys cur nv
  have "(stateKey ` set queue' \<union> edgeKeys g) - insert (stateKey current) visited
      \<subset> (stateKey ` set queue \<union> edgeKeys g) - visited" by auto
  from psubset_card_mono [OF fin this]
  show "((g, target, queue', insert (stateKey current) visited, best'),
       (g, target, queue, visited, best))
      \<in> (\<lambda>(g, target, queue, visited, best).
          card ((stateKey ` set queue \<union> edgeKeys g) - visited)) <*mlex*>
        measure (\<lambda>(g, target, queue, visited, best). length queue)"
    by (simp add: mlex_iff)
qed

lemma getEdgeAttributes_hasEdge: "getEdgeAttributes g a b = Inr edge \<Longrightarrow> hasEdge g a b"
  using getEdgeAttributes_Inr by (fastforce simp: hasEdge_def)

lemma isWalk_snoc: "p \<noteq> [] \<Longrightarrow> isWalk g p \<Longrightarrow> hasEdge g (last p) n \<Longrightarrow> isWalk g (p @ [n])"
  by (induction g p rule: isWalk.induct) auto

lemma connects_snoc:
  "connects g s a p \<Longrightarrow> hasEdge g a n \<Longrightarrow> connects g s n (p @ [n])"
  by (auto simp: connects_def isWalk_snoc)

lemma relax_connects:
  assumes "connects g s (q_node cur) (q_path cur)"
    and "\<forall>e \<in> set (snd st). connects g s (q_node e) (q_path e)"
  shows "\<forall>e \<in> set (snd (relax g cur st n)). connects g s (q_node e) (q_path e)"
proof (cases "getEdgeAttributes g (q_node cur) n")
  case (Inl err)
  with assms(2) show ?thesis by (simp add: relax_def)
next
  case (Inr edge)
  from connects_snoc [OF assms(1) getEdgeAttributes_hasEdge [OF Inr]] assms(2)
  show ?thesis by (auto simp: relax_def Inr Let_def)
qed

lemma foldl_relax_connects:
  assumes "connects g s (q_node cur) (q_path cur)"
    and "\<forall>e \<in> set (snd st). connects g s (q_node e) (q_path e)"
  shows "\<forall>e \<in> set (snd (foldl (relax g cur) st ns)). connects g s (q_node e) (q_path e)"
  using assms(2)
proof (induction ns arbitrary: st)
  case Nil
  then show ?case by simp
next
  case (Cons n ns)
  from Cons.IH [OF relax_connects [OF assms(1) Cons.prems]] show ?case by simp
qed

text \<open>Whatever the search returns is a walk of the graph from the source to the target.\<close>

lemma searchLoop_connects:
  "searchLoop g target queue visited best = Some p \<Longrightarrow>
   \<forall>e \<in> set queue. connects g s (q_node e) (q_path e) \<Longrightarrow> connects g s target p"
proof (induction g target queue visited best rule: searchLoop.induct)
  case (1 g target queue visited best)
  show ?case
  proof (cases "js_sort queueOrder queue")
    case Nil
    with "1.prems"(1) show ?thesis by (simp add: searchLoop.simps [of g target queue])
  next
    case (Cons current rest)
    from Cons have mem: "current \<in> set queue" and sub: "set rest \<subseteq> set queue"
      using set_js_sort [of queueOrder queue] by auto
    from mem "1.prems"(2) have cur: "connects g s (q_node current) (q_path current)" by blast
    from sub "1.prems"(2) have rest: "\<forall>e \<in> set rest. connects g s (q_node e) (q_path e)" by blast
    show ?thesis
    proof (cases "q_node current = target")
      case True
      with "1.prems"(1) Cons cur show ?thesis by (simp add: searchLoop.simps [of g target queue])
    next
      case nt: False
      show ?thesis
      proof (cases "stateKey current \<in> visited")
        case True
        with "1.prems"(1) Cons nt have "searchLoop g target rest visited best = Some p"
          by (simp add: searchLoop.simps [of g target queue])
        from "1.IH"(1) [OF Cons nt True this rest] show ?thesis .
      next
        case False
        obtain best' queue' where f: "foldl (relax g current) (best, rest)
            (neighborKeys g (q_node current)) = (best', queue')"
          by (cases "foldl (relax g current) (best, rest) (neighborKeys g (q_node current))")
        with "1.prems"(1) Cons nt False
        have r: "searchLoop g target queue' (insert (stateKey current) visited) best' = Some p"
          by (simp add: searchLoop.simps [of g target queue])
        from foldl_relax_connects [OF cur, of "(best, rest)" "neighborKeys g (q_node current)"] rest f
        have "\<forall>e \<in> set queue'. connects g s (q_node e) (q_path e)" by simp
        from "1.IH"(2) [OF Cons nt False f [symmetric] r this] show ?thesis .
      qed
    qed
  qed
qed

lemma dijkstraMinTransfers_connects:
  assumes "dijkstraMinTransfers g s t = Some p"
  shows "connects g s t p"
proof (cases "s = t")
  case True
  with assms show ?thesis
    by (auto simp: dijkstraMinTransfers_def connects_def split: if_splits)
next
  case False
  with assms have "searchLoop g t
      [\<lparr>q_node = s, q_transfers = 0, q_time = 0, prevMode = None, q_path = [s]\<rparr>]
      {} [s \<mapsto> (0, 0)] = Some p"
    by (auto simp: dijkstraMinTransfers_def split: if_splits)
  then show ?thesis
    by (rule searchLoop_connects) (simp add: connects_def)
qed

lemma walkStep_hasEdge: "walkStep g a b w = Inr w' \<Longrightarrow> hasEdge g a b"
  by (auto simp: walkStep_def dest: getEdgeAttributes_hasEdge split: sum.splits)

lemma walkPath_isWalk: "walkPath g p w = Inr w' \<Longrightarrow> p \<noteq> [] \<Longrightarrow> isWalk g p"
  by (induction g p w rule: walkPath.induct) (auto dest: walkStep_hasEdge split: sum.splits)

lemma no_walk_without_edges:
  assumes "edges g = []" and "s \<noteq> t"
  shows "\<not> connects g s t p"
proof
  assume c: "connects g s t p"
  then obtain a q where p: "p = a # q" by (cases p) (auto simp: connects_def)
  with c assms(2) obtain b rest where "q = b # rest" by (cases q) (auto simp: connects_def)
  with p c assms(1) show False by (simp add: connects_def hasEdge_def)
qed

lemma computeShortestPath_no_path:
  assumes "hasNode g s" and "hasNode g t" and "s \<noteq> t" and "\<forall>p. \<not> connects g s t p"
    and "objective \<noteq> ''transfers'' \<longrightarrow>
         (\<forall>p. lib g s t = Path p \<longrightarrow> p \<noteq> [] \<and> hd p = s \<and> last p = t)"
  shows "computeShortestPath lib g s t objective = unreachableResult \<or>
         computeShortestPath lib g s t objective = caughtResult"
proof (cases "objective = ''transfers''")
  case True
  from dijkstraMinTransfers_connects [of g s t] assms(4)
  have "dijkstraMinTransfers g s t = None" by (cases "dijkstraMinTransfers g s t") auto
  with True assms(1-3) show ?thesis by (simp add: computeShortestPath_def)
next
  case False
  show ?thesis
  proof (cases "lib g s t")
    case Throws
    with False assms(1-3) show ?thesis by (simp add: computeShortestPath_def)
  next
    case Null
    with False assms(1-3) show ?thesis by (simp add: computeShortestPath_def)
  next
    case (Path p)
    with False assms(5) have p: "p \<noteq> []" "hd p = s" "last p = t" by auto
    have "walkPath g p walkStart = Inl err \<or> walkPath g p walkStart = Inr w \<Longrightarrow> \<exists>err. walkPath g p walkStart = Inl err" for err w
      using walkPath_isWalk [of g p walkStart w] p assms(4) by (auto simp: connects_def)
    then obtain err where "walkPath g p walkStart = Inl err"
      by (cases "walkPath g p walkStart") auto
    with Path False assms(1-3) show ?thesis by (simp add: computeShortestPath_def)
  qed
qed

text \<open>
  Claim C8, as the code has it. For every graph, library routine and objective:
  with \<open>source = target\<close> a node of the graph, \<open>computeShortestPath\<close> returns the
  trivial path \<open>[source]\<close> with distance, time, cost and transfers 0; with either endpoint
  missing from the graph (also when \<open>source = target\<close>) it returns the unreachable
  sentinel; and with two distinct nodes of the graph that no walk joins, the result has
  a null path and infinite distance, transfers, time and cost. For the objectives handled
  by the library routine the last part needs only that a path the routine returns starts
  at the source and ends at the target. The function is total: an exception inside the
  \<^verbatim>\<open>try\<close> block becomes the sentinel of the \<^verbatim>\<open>catch\<close> block.
\<close>

theorem C8_shortest_path_edge_cases:
  "(hasNode g s \<longrightarrow>
      computeShortestPath lib g s s objective =
        \<lparr>path = Some [s], pathSegments = None, pathDistance = Fin 0, transfers = Fin 0,
         pathTime = Fin 0, pathCost = Fin 0\<rparr>) \<and>
   (\<not> hasNode g s \<or> \<not> hasNode g t \<longrightarrow>
      computeShortestPath lib g s t objective =
        \<lparr>path = None, pathSegments = None, pathDistance = PInf, transfers = PInf,
         pathTime = PInf, pathCost = PInf\<rparr>) \<and>
   (hasNode g s \<and> hasNode g t \<and> s \<noteq> t \<and> (\<forall>p. \<not> connects g s t p) \<and>
    (objective \<noteq> ''transfers'' \<longrightarrow>
       (\<forall>p. lib g s t = Path p \<longrightarrow> p \<noteq> [] \<and> hd p = s \<and> last p = t)) \<longrightarrow>
      path (computeShortestPath lib g s t objective) = None \<and>
      pathDistance (computeShortestPath lib g s t objective) = PInf \<and>
      transfers (computeShortestPath lib g s t objective) = PInf \<and>
      pathTime (computeShortestPath lib g s t objective) = PInf \<and>
      pathCost (computeShortestPath lib g s t objective) = PInf)"
proof (intro conjI impI)
  assume "hasNode g s"
  then show "computeShortestPath lib g s s objective =
        \<lparr>path = Some [s], pathSegments = None, pathDistance = Fin 0, transfers = Fin 0,
         pathTime = Fin 0, pathCost = Fin 0\<rparr>"
    by (simp add: computeShortestPath_def trivialResult_def)
next
  assume "\<not> hasNode g s \<or> \<not> hasNode g t"
  then show "computeShortestPath lib g s t objective =
        \<lparr>path = None, pathSegments = None, pathDistance = PInf, transfers = PInf,
         pathTime = PInf, pathCost = PInf\<rparr>"
    by (auto simp: computeShortestPath_def unreachableResult_def UNREACHABLE_def)
next
  assume a: "hasNode g s \<and> hasNode g t \<and> s \<noteq> t \<and> (\<forall>p. \<not> connects g s t p) \<and>
    (objective \<noteq> ''transfers'' \<longrightarrow>
       (\<forall>p. lib g s t = Path p \<longrightarrow> p \<noteq> [] \<and> hd p = s \<and> last p = t))"
  then have r: "computeShortestPath lib g s t objective = unreachableResult \<or>
         computeShortestPath lib g s t objective = caughtResult"
    by (intro computeShortestPath_no_path) blast+
  from r show "path (computeShortestPath lib g s t objective) = None"
    by (auto simp: unreachableResult_def caughtResult_def)
  from r show "pathDistance (computeShortestPath lib g s t objective) = PInf"
    by (auto simp: unreachableResult_def caughtResult_def UNREACHABLE_def)
  from r show "transfers (computeShortestPath lib g s t objective) = PInf"
    by (auto simp: unreachableResult_def caughtResult_def UNREACHABLE_def)
  from r show "pathTime (computeShortestPath lib g s t objective) = PInf"
    by (auto simp: unreachableResult_def caughtResult_def UNREACHABLE_def)
  from r show "pathCost (computeShortestPath lib g s t objective) = PInf"
    by (auto simp: unreachableResult_def caughtResult_def UNREACHABLE_def)
qed

theorem C8_shortest_path_edge_cases_witness:
  "hasNode exIsolatedGraph ''S'' \<and> hasNode exIsolatedGraph ''T'' \<and> \<not> hasNode exIsolatedGraph ''Z'' \<and>
   computeShortestPath exNullLibrary exIsolatedGraph ''S'' ''S'' ''time'' =
     \<lparr>path = Some [''S''], pathSegments = None, pathDistance = Fin 0, transfers = Fin 0,
      pathTime = Fin 0, pathCost = Fin 0\<rparr> \<and>
   computeShortestPath exNullLibrary exIsolatedGraph ''S'' ''Z'' ''time'' =
     \<lparr>path = None, pathSegments = None, pathDistance = PInf, transfers = PInf,
      pathTime = PInf, pathCost = PInf\<rparr> \<and>
   path (computeShortestPath exNullLibrary exIsolatedGraph ''S'' ''T'' ''transfers'') = None \<and>
   pathTime (computeShortestPath exNullLibrary exIsolatedGraph ''S'' ''T'' ''transfers'') = PInf \<and>
   path (computeShortestPath exNullLibrary exIsolatedGraph ''S'' ''T'' ''cost'') = None \<and>
   pathTime (computeShortestPath exNullLibrary exIsolatedGraph ''S'' ''T'' ''cost'') = PInf"
proof -
  have n: "hasNode exIsolatedGraph ''S''" "hasNode exIsolatedGraph ''T''"
    "\<not> hasNode exIsolatedGraph ''Z''"
    by (simp_all add: hasNode_def exIsolatedGraph_def)
  have d: "''S'' \<noteq> ''T''" by simp
  have nw: "\<forall>p. \<not> connects exIsolatedGraph ''S'' ''T'' p"
    using no_walk_without_edges [of exIsolatedGraph "''S''" "''T''"]
    by (simp add: exIsolatedGraph_def)
  have lb: "\<forall>p. exNullLibrary exIsolatedGraph ''S'' ''T'' = Path p \<longrightarrow>
      p \<noteq> [] \<and> hd p = ''S'' \<and> last p = ''T''"
    by (simp add: exNullLibrary_def)
  from C8_shortest_path_edge_cases [of exIsolatedGraph "''S''" exNullLibrary "''time''" "''Z''"] n
  have a: "computeShortestPath exNullLibrary exIsolatedGraph ''S'' ''S'' ''time'' =
     \<lparr>path = Some [''S''], pathSegments = None, pathDistance = Fin 0, transfers = Fin 0,
      pathTime = Fin 0, pathCost = Fin 0\<rparr>"
    and b: "computeShortestPath exNullLibrary exIsolatedGraph ''S'' ''Z'' ''time'' =
     \<lparr>path = None, pathSegments = None, pathDistance = PInf, transfers = PInf,
      pathTime = PInf, pathCost = PInf\<rparr>"
    by blast+
  from C8_shortest_path_edge_cases [of exIsolatedGraph "''S''" exNullLibrary "''transfers''" "''T''"]
    n d nw
  have c: "path (computeShortestPath exNullLibrary exIsolatedGraph ''S'' ''T'' ''transfers'') = None"
    "pathTime (computeShortestPath exNullLibrary exIsolatedGraph ''S'' ''T'' ''transfers'') = PInf"
    by blast+
  from C8_shortest_path_edge_cases [of exIsolatedGraph "''S''" exNullLibrary "''cost''" "''T''"]
    n d nw lb
  have e: "path (computeShortestPath exNullLibrary exIsolatedGraph ''S'' ''T'' ''cost'') = None"
    "pathTime (computeShortestPath exNullLibrary exIsolatedGraph ''S'' ''T'' ''cost'') = PInf"
    by blast+
  from n a b c e show ?thesis by blast
qed

text \<open>
  The claim as stated fails when \<open>source = target\<close> is not a node of the graph: the
  missing-endpoint check comes first, and the result is the sentinel, not the trivial path.
\<close>

theorem C8_counterexample:
  "computeShortestPath exNullLibrary emptyGraph ''S'' ''S'' ''time'' =
     \<lparr>path = None, pathSegments = None, pathDistance = PInf, transfers = PInf,
      pathTime = PInf, pathCost = PInf\<rparr>"
  by (simp add: computeShortestPath_def hasNode_def emptyGraph_def unreachableResult_def
      UNREACHABLE_def)

lemma exTransferGraph_built:
  "buildGraph exTransferNodes exTransferEdges ''transfers'' None None = Inr exTransferGraph"
  by (simp add: builder_defs exTransferNodes_def exTransferEdges_def exTransferGraph_def
      exStop_def exLink_def exAttrs_def)

lemmas search_defs = dijkstraMinTransfers_def relax_def neighborKeys_def objectKeyOrder_def
  isArrayIndex_def isDigit_def getEdgeAttributes_def
  joins_def edgeModeOf_def stateKey_def queueOrder_def hasNode_def List.map_filter_def

lemma exTransferSearch:
  "dijkstraMinTransfers exTransferGraph ''S'' ''T'' = Some [''S'', ''X'', ''T'']"
  by (simp add: search_defs exTransferGraph_def exAttrs_def Let_def)

lemmas walk_defs = walkStep_def walkStart_def getEdgeAttributes_def getNodeAttributes_def
  joins_def edgeModeOf_def js_or_str_def Let_def

lemma exTransferResult:
  "path (computeShortestPath exNullLibrary exTransferGraph ''S'' ''T'' ''transfers'') =
      Some [''S'', ''X'', ''T''] \<and>
   transfers (computeShortestPath exNullLibrary exTransferGraph ''S'' ''T'' ''transfers'') = Fin 1 \<and>
   pathTime (computeShortestPath exNullLibrary exTransferGraph ''S'' ''T'' ''transfers'') = Fin 2 \<and>
   pathCost (computeShortestPath exNullLibrary exTransferGraph ''S'' ''T'' ''transfers'') = Fin 15"
  unfolding computeShortestPath_def exTransferSearch
  by (simp add: walk_defs hasNode_def exTransferGraph_def exAttrs_def exStop_def)

text \<open>
  Claim C1 at a failing input. On the graph built from the four stops above, the
  transfer-minimising search returns \<open>S, X, T\<close>: a bus and then a metro, one transfer,
  two minutes. The walk \<open>S, B, X, T\<close> joins the same endpoints by metro only, with no
  transfer. The search records the best (transfers, time) label per node, not per
  (node, incoming mode), so the metro arrival at \<open>X\<close> (no transfer, ten minutes) is
  discarded in favour of the bus arrival (no transfer, one minute).
\<close>

theorem C1_transfer_search_not_minimal:
  "buildGraph exTransferNodes exTransferEdges ''transfers'' None None = Inr exTransferGraph \<and>
   path (computeShortestPath exNullLibrary exTransferGraph ''S'' ''T'' ''transfers'') =
     Some [''S'', ''X'', ''T''] \<and>
   transfers (computeShortestPath exNullLibrary exTransferGraph ''S'' ''T'' ''transfers'') = Fin 1 \<and>
   pathTime (computeShortestPath exNullLibrary exTransferGraph ''S'' ''T'' ''transfers'') = Fin 2 \<and>
   connects exTransferGraph ''S'' ''T'' [''S'', ''B'', ''X'', ''T''] \<and>
   map_sum id w_transfers (walkPath exTransferGraph [''S'', ''B'', ''X'', ''T''] walkStart) = Inr 0"
proof -
  have c: "connects exTransferGraph ''S'' ''T'' [''S'', ''B'', ''X'', ''T'']"
    by (simp add: connects_def hasEdge_def joins_def exTransferGraph_def)
  have w2: "map_sum id w_transfers (walkPath exTransferGraph [''S'', ''B'', ''X'', ''T''] walkStart) = Inr 0"
    by (simp add: walk_defs exTransferGraph_def exAttrs_def exStop_def)
  from exTransferGraph_built exTransferResult c w2 show ?thesis by simp
qed

theorem C1_transfer_search_not_minimal_witness:
  "path (computeShortestPath exNullLibrary exTransferGraph ''S'' ''T'' ''transfers'') =
     Some [''S'', ''X'', ''T''] \<and>
   transfers (computeShortestPath exNullLibrary exTransferGraph ''S'' ''T'' ''transfers'') = Fin 1 \<and>
   isWalk exTransferGraph [''S'', ''B'', ''X'', ''T'']"
  using C1_transfer_search_not_minimal by (simp add: connects_def)

section \<open>Properties of the metrics aggregator\<close>

text \<open>The state of the loop of \<open>computeMetrics\<close> after any list of pairs.\<close>

lemma metrics_loop:
  fixes lib g objective
  defines "res \<equiv> \<lambda>od. computeShortestPath lib g (od_source od) (od_target od) objective"
  defines "ok \<equiv> \<lambda>od. pathTime (res od) \<noteq> UNREACHABLE"
  defines "st \<equiv> \<lambda>ods. foldl (metricsStep lib g objective) metricsStart ods"
  shows "m_results (st ods) = map (\<lambda>od. odResult od (res od) (ok od)) ods \<and>
     m_disconnected (st ods) = length (filter (\<lambda>od. \<not> ok od) ods) \<and>
     m_validPairs (st ods) = length (filter ok ods) \<and>
     totalTime (st ods) = js_sum (map (\<lambda>od. pathTime (res od)) (filter ok ods)) \<and>
     totalCost (st ods) = js_sum (map (\<lambda>od. pathCost (res od)) (filter ok ods)) \<and>
     totalTransfers (st ods) = js_sum (map (\<lambda>od. transfers (res od)) (filter ok ods))"
proof (induction ods rule: rev_induct)
  case Nil
  show ?case by (simp add: st_def metricsStart_def js_sum_def)
next
  case (snoc od ods)
  have step: "st (ods @ [od]) = metricsStep lib g objective (st ods) od"
    by (simp add: st_def)
  have r: "computeShortestPath lib g (od_source od) (od_target od) objective = res od"
    by (simp add: res_def)
  show ?case
  proof (cases "ok od")
    case True
    then have "pathTime (res od) \<noteq> UNREACHABLE" by (simp add: ok_def)
    with snoc True show ?thesis
      by (simp add: step metricsStep_def Let_def r js_sum_def)
  next
    case False
    then have "pathTime (res od) = UNREACHABLE" by (simp add: ok_def)
    with snoc False show ?thesis
      by (simp add: step metricsStep_def Let_def r js_sum_def)
  qed
qed

lemma length_filter_split: "length (filter P xs) + length (filter (\<lambda>x. \<not> P x) xs) = length xs"
  by (induction xs) auto

text \<open>A path result is the sentinel, or all its totals are finite.\<close>

lemma computeShortestPath_totals:
  "pathTime (computeShortestPath lib g s t objective) = PInf \<or>
   (\<exists>a c k. pathTime (computeShortestPath lib g s t objective) = Fin a \<and>
      pathCost (computeShortestPath lib g s t objective) = Fin c \<and>
      transfers (computeShortestPath lib g s t objective) = Fin (real k))"
proof -
  have z: "\<exists>k. (0::real) = real k" by (rule exI [of _ 0]) simp
  show ?thesis
    using z
    by (auto simp: computeShortestPath_def unreachableResult_def caughtResult_def
        trivialResult_def UNREACHABLE_def split: library_result.splits sum.splits option.splits)
qed

lemma foldl_js_add_Fin: "foldl js_add (Fin a) (map Fin xs) = Fin (a + sum_list xs)"
  by (induction xs arbitrary: a) (simp_all add: add.assoc)

lemma js_sum_Fin: "js_sum (map Fin xs) = Fin (sum_list xs)"
  by (simp add: js_sum_def foldl_js_add_Fin)

lemma foldl_js_add_count:
  "foldl js_add (Fin a) (map (\<lambda>k. Fin (real k)) ks) = Fin (a + real (sum_list ks))"
  by (induction ks arbitrary: a) (simp_all add: add.assoc)

lemma js_sum_count: "js_sum (map (\<lambda>k. Fin (real k)) ks) = Fin (real (sum_list ks))"
  by (simp add: js_sum_def foldl_js_add_count)

text \<open>The totals of the pairs with finite time, as lists of reals and of counts.\<close>

lemma finite_totals:
  fixes lib g objective
  defines "res \<equiv> \<lambda>od. computeShortestPath lib g (od_source od) (od_target od) objective"
  shows "\<exists>ts cs ks.
     map (\<lambda>od. pathTime (res od)) (filter (\<lambda>od. pathTime (res od) \<noteq> PInf) ods) = map Fin ts \<and>
     map (\<lambda>od. pathCost (res od)) (filter (\<lambda>od. pathTime (res od) \<noteq> PInf) ods) = map Fin cs \<and>
     map (\<lambda>od. transfers (res od)) (filter (\<lambda>od. pathTime (res od) \<noteq> PInf) ods)
       = map (\<lambda>k. Fin (real k)) ks"
proof (induction ods)
  case Nil
  show ?case by simp
next
  case (Cons od ods)
  then obtain ts cs ks where IH:
    "map (\<lambda>od. pathTime (res od)) (filter (\<lambda>od. pathTime (res od) \<noteq> PInf) ods) = map Fin ts"
    "map (\<lambda>od. pathCost (res od)) (filter (\<lambda>od. pathTime (res od) \<noteq> PInf) ods) = map Fin cs"
    "map (\<lambda>od. transfers (res od)) (filter (\<lambda>od. pathTime (res od) \<noteq> PInf) ods)
       = map (\<lambda>k. Fin (real k)) ks"
    by blast
  show ?case
  proof (cases "pathTime (res od) = PInf")
    case True
    with IH show ?thesis by auto
  next
    case False
    with computeShortestPath_totals [of lib g "od_source od" "od_target od" objective]
    obtain a c k where "pathTime (res od) = Fin a" "pathCost (res od) = Fin c"
      "transfers (res od) = Fin (real k)"
      by (auto simp: res_def)
    with False IH have
      "map (\<lambda>od. pathTime (res od)) (filter (\<lambda>od. pathTime (res od) \<noteq> PInf) (od # ods))
         = map Fin (a # ts)"
      "map (\<lambda>od. pathCost (res od)) (filter (\<lambda>od. pathTime (res od) \<noteq> PInf) (od # ods))
         = map Fin (c # cs)"
      "map (\<lambda>od. transfers (res od)) (filter (\<lambda>od. pathTime (res od) \<noteq> PInf) (od # ods))
         = map (\<lambda>k. Fin (real k)) (k # ks)"
      by simp_all
    then show ?thesis by blast
  qed
qed

text \<open>
  Claim C3. For every graph, library routine, list of pairs and objective, the bundle
  returned by \<open>computeMetrics\<close> satisfies \<open>validPairs + disconnected = totalPairs\<close>, the
  latter being the number of pairs; \<open>disconnected\<close> counts exactly the pairs whose path
  result has infinite time; the results are the per-pair path results in input order,
  flagged reachable exactly when the time is not infinite. The pairs with finite time have
  finite time, cost and transfer totals, and each average is 0 when \<open>validPairs\<close> is 0 and
  otherwise the sum of that total over exactly those pairs, divided by \<open>validPairs\<close>.
\<close>

theorem C3_metrics_bundle:
  fixes lib g objective odPairs
  defines "res \<equiv> \<lambda>od. computeShortestPath lib g (od_source od) (od_target od) objective"
  defines "valid \<equiv> filter (\<lambda>od. pathTime (res od) \<noteq> PInf) odPairs"
  defines "m \<equiv> computeMetrics lib g odPairs objective"
  shows "validPairs m + disconnected m = totalPairs m \<and>
     totalPairs m = length odPairs \<and>
     disconnected m = length (filter (\<lambda>od. pathTime (res od) = PInf) odPairs) \<and>
     validPairs m = length valid \<and>
     results m = map (\<lambda>od. odResult od (res od) (pathTime (res od) \<noteq> PInf)) odPairs \<and>
     (\<exists>ts cs ks.
        map (\<lambda>od. pathTime (res od)) valid = map Fin ts \<and>
        map (\<lambda>od. pathCost (res od)) valid = map Fin cs \<and>
        map (\<lambda>od. transfers (res od)) valid = map (\<lambda>k. Fin (real k)) ks \<and>
        avgTime m = (if validPairs m = 0 then Fin 0
                     else Fin (sum_list ts / real (validPairs m))) \<and>
        avgCost m = (if validPairs m = 0 then Fin 0
                     else Fin (sum_list cs / real (validPairs m))) \<and>
        avgTransfers m = (if validPairs m = 0 then Fin 0
                     else Fin (real (sum_list ks) / real (validPairs m))))"
proof -
  let ?res = "\<lambda>od. computeShortestPath lib g (od_source od) (od_target od) objective"
  let ?valid = "filter (\<lambda>od. pathTime (?res od) \<noteq> PInf) odPairs"
  let ?m = "computeMetrics lib g odPairs objective"
  note loop = metrics_loop [of lib g objective odPairs, unfolded UNREACHABLE_def]
  have split: "length ?valid + length (filter (\<lambda>od. pathTime (?res od) = PInf) odPairs)
      = length odPairs"
    using length_filter_split [of "\<lambda>od. pathTime (?res od) \<noteq> PInf" odPairs] by simp
  have counts: "validPairs ?m + disconnected ?m = totalPairs ?m"
    "totalPairs ?m = length odPairs"
    "disconnected ?m = length (filter (\<lambda>od. pathTime (?res od) = PInf) odPairs)"
    "validPairs ?m = length ?valid"
    "results ?m = map (\<lambda>od. odResult od (?res od) (pathTime (?res od) \<noteq> PInf)) odPairs"
    using loop split by (simp_all add: computeMetrics_def Let_def)
  have avgs: "avgTime ?m = (if validPairs ?m = 0 then Fin 0
        else js_div_count (js_sum (map (\<lambda>od. pathTime (?res od)) ?valid)) (validPairs ?m))"
    "avgCost ?m = (if validPairs ?m = 0 then Fin 0
        else js_div_count (js_sum (map (\<lambda>od. pathCost (?res od)) ?valid)) (validPairs ?m))"
    "avgTransfers ?m = (if validPairs ?m = 0 then Fin 0
        else js_div_count (js_sum (map (\<lambda>od. transfers (?res od)) ?valid)) (validPairs ?m))"
    using loop by (simp_all add: computeMetrics_def Let_def)
  from finite_totals [of lib g objective odPairs] obtain ts cs ks where
    f: "map (\<lambda>od. pathTime (?res od)) ?valid = map Fin ts"
      "map (\<lambda>od. pathCost (?res od)) ?valid = map Fin cs"
      "map (\<lambda>od. transfers (?res od)) ?valid = map (\<lambda>k. Fin (real k)) ks"
    by blast
  have sums: "js_sum (map (\<lambda>od. pathTime (?res od)) ?valid) = Fin (sum_list ts)"
    "js_sum (map (\<lambda>od. pathCost (?res od)) ?valid) = Fin (sum_list cs)"
    "js_sum (map (\<lambda>od. transfers (?res od)) ?valid) = Fin (real (sum_list ks))"
    unfolding f by (rule js_sum_Fin, rule js_sum_Fin, rule js_sum_count)
  have a: "avgTime ?m = (if validPairs ?m = 0 then Fin 0
        else Fin (sum_list ts / real (validPairs ?m)))"
    "avgCost ?m = (if validPairs ?m = 0 then Fin 0
        else Fin (sum_list cs / real (validPairs ?m)))"
    "avgTransfers ?m = (if validPairs ?m = 0 then Fin 0
        else Fin (real (sum_list ks) / real (validPairs ?m)))"
    unfolding avgs sums by simp_all
  from counts f a show ?thesis
    unfolding res_def valid_def m_def by blast
qed

lemma exUnreachableResult:
  "pathTime (computeShortestPath exNullLibrary exTransferGraph ''S'' ''Z'' ''transfers'') = PInf"
  by (simp add: computeShortestPath_def hasNode_def exTransferGraph_def unreachableResult_def
      UNREACHABLE_def)

lemma exShortSearch: "dijkstraMinTransfers exTransferGraph ''S'' ''X'' = Some [''S'', ''X'']"
  by (simp add: search_defs exTransferGraph_def exAttrs_def Let_def)

lemma exShortResult:
  "transfers (computeShortestPath exNullLibrary exTransferGraph ''S'' ''X'' ''transfers'') = Fin 0 \<and>
   pathTime (computeShortestPath exNullLibrary exTransferGraph ''S'' ''X'' ''transfers'') = Fin 1 \<and>
   pathCost (computeShortestPath exNullLibrary exTransferGraph ''S'' ''X'' ''transfers'') = Fin 5"
  unfolding computeShortestPath_def exShortSearch
  by (simp add: walk_defs hasNode_def exTransferGraph_def exAttrs_def exStop_def)

theorem C3_metrics_bundle_witness:
  "totalPairs (computeMetrics exNullLibrary exTransferGraph exPairs ''transfers'') = 3 \<and>
   disconnected (computeMetrics exNullLibrary exTransferGraph exPairs ''transfers'') = 1 \<and>
   validPairs (computeMetrics exNullLibrary exTransferGraph exPairs ''transfers'') = 2 \<and>
   avgTime (computeMetrics exNullLibrary exTransferGraph exPairs ''transfers'') = Fin (3 / 2) \<and>
   avgCost (computeMetrics exNullLibrary exTransferGraph exPairs ''transfers'') = Fin 10 \<and>
   avgTransfers (computeMetrics exNullLibrary exTransferGraph exPairs ''transfers'') = Fin (1 / 2)"
proof -
  let ?m = "computeMetrics exNullLibrary exTransferGraph exPairs ''transfers''"
  let ?res = "\<lambda>od. computeShortestPath exNullLibrary exTransferGraph (od_source od) (od_target od)
      ''transfers''"
  let ?valid = "filter (\<lambda>od. pathTime (?res od) \<noteq> PInf) exPairs"
  note ev = exPairs_def exTransferResult exUnreachableResult exShortResult
  note t = C3_metrics_bundle [of exNullLibrary exTransferGraph exPairs "''transfers''"]
  from t have n: "totalPairs ?m = 3" "disconnected ?m = 1" "validPairs ?m = 2"
    by (simp_all add: ev)
  from t obtain ts cs ks where
    l: "map (\<lambda>od. pathTime (?res od)) ?valid = map Fin ts"
      "map (\<lambda>od. pathCost (?res od)) ?valid = map Fin cs"
      "map (\<lambda>od. transfers (?res od)) ?valid = map (\<lambda>k. Fin (real k)) ks"
    and a: "avgTime ?m = (if validPairs ?m = 0 then Fin 0
        else Fin (sum_list ts / real (validPairs ?m)))"
      "avgCost ?m = (if validPairs ?m = 0 then Fin 0
        else Fin (sum_list cs / real (validPairs ?m)))"
      "avgTransfers ?m = (if validPairs ?m = 0 then Fin 0
        else Fin (real (sum_list ks) / real (validPairs ?m)))"
    by blast
  from l(1) have "[Fin 2, Fin 1] = map Fin ts" by (simp add: ev)
  then have ts: "ts = [2, 1]" by (auto simp: Cons_eq_map_conv)
  from l(2) have "[Fin 15, Fin 5] = map Fin cs" by (simp add: ev)
  then have cs: "cs = [15, 5]" by (auto simp: Cons_eq_map_conv)
  from l(3) have "[Fin 1, Fin 0] = map (\<lambda>k. Fin (real k)) ks" by (simp add: ev)
  then have ks: "ks = [1, 0]" by (auto simp: Cons_eq_map_conv)
  from n a show ?thesis by (simp add: ts cs ks)
qed

section \<open>Properties of the candidate generator\<close>

lemma addCandidate_inv:
  assumes "candInv og fg st"
  shows "candInv og fg (addCandidate hv ns og fg st from to type prio)"
proof -
  let ?key = "\<lambda>c. c_from c @ ''_'' @ c_to c"
  have new: "{from, to} \<notin> (\<lambda>c. {c_from c, c_to c}) ` set (fst st)"
    if k: "from @ ''_'' @ to \<notin> snd st" and r: "to @ ''_'' @ from \<notin> snd st"
  proof
    assume "{from, to} \<in> (\<lambda>c. {c_from c, c_to c}) ` set (fst st)"
    then obtain c where c: "c \<in> set (fst st)" and e: "{from, to} = {c_from c, c_to c}" by blast
    from e have "(from = c_from c \<and> to = c_to c) \<or> (from = c_to c \<and> to = c_from c)"
      by (auto simp: doubleton_eq_iff)
    then have "?key c = from @ ''_'' @ to \<or> ?key c = to @ ''_'' @ from" by auto
    moreover from c assms have "?key c \<in> snd st" by (auto simp: candInv_def)
    ultimately show False using k r by auto
  qed
  show ?thesis
    using assms new
    by (auto simp: addCandidate_def Let_def candInv_def split: option.splits)
qed

lemma foldl_inv:
  assumes "\<And>s x. P s \<Longrightarrow> P (f s x)" and "P st"
  shows "P (foldl f st xs)"
  using assms(2) by (induction xs arbitrary: st) (simp_all add: assms(1))

lemma hubPair_inv: "candInv og fg st \<Longrightarrow> candInv og fg (hubPair hv ns og fg hi st hj)"
  by (simp add: hubPair_def Let_def addCandidate_inv)

lemma hubNeighbors_inv:
  "candInv og fg st \<Longrightarrow> candInv og fg (hubNeighbors hv ns og fg hubs st)"
  by (induction hubs arbitrary: st) (simp_all add: foldl_inv hubPair_inv)

lemma crossPair_inv: "candInv og fg st \<Longrightarrow> candInv og fg (crossPair hv ns og fg m st t)"
  by (simp add: crossPair_def Let_def addCandidate_inv)

lemma crossRail_inv: "candInv og fg st \<Longrightarrow> candInv og fg (crossRail hv ns og fg st)"
  unfolding crossRail_def Let_def
  by (intro foldl_inv [where P = "candInv og fg"]) (simp_all add: crossPair_inv)

lemma odStep_inv: "candInv og fg st \<Longrightarrow> candInv og fg (odStep hv ns og fg st od)"
  by (simp add: odStep_def Let_def addCandidate_inv split: option.splits)

lemma expressPair_inv: "candInv og fg st \<Longrightarrow> candInv og fg (expressPair hv ns og fg hi st hj)"
  by (simp add: expressPair_def Let_def addCandidate_inv)

lemma expressInner_inv:
  "candInv og fg st \<Longrightarrow> candInv og fg (expressInner hv ns og fg hi hubs st)"
  by (induction hubs arbitrary: st) (simp_all add: expressPair_inv)

lemma expressHubs_inv:
  "candInv og fg st \<Longrightarrow> candInv og fg (expressHubs hv ns og fg hubs st)"
  by (induction hubs arbitrary: st) (simp_all add: expressInner_inv)

lemma distinct_map_js_insert:
  "distinct (map f (js_insert cmp x xs)) = (f x \<notin> f ` set xs \<and> distinct (map f xs))"
  by (induction xs) (auto simp: set_js_insert)

lemma distinct_map_js_sort: "distinct (map f (js_sort cmp xs)) = distinct (map f xs)"
  by (induction xs) (simp_all add: distinct_map_js_insert set_js_sort)

lemma sorted_js_insert_priority:
  "sorted_wrt (\<lambda>a b. priority a \<ge> priority b) xs \<Longrightarrow>
   sorted_wrt (\<lambda>a b. priority a \<ge> priority b) (js_insert priorityOrder x xs)"
  by (induction xs) (auto simp: set_js_insert priorityOrder_def)

lemma sorted_js_sort_priority:
  "sorted_wrt (\<lambda>a b. priority a \<ge> priority b) (js_sort priorityOrder xs)"
  by (induction xs) (simp_all add: sorted_js_insert_priority)

text \<open>
  Claim C6. For every node list, pair of graphs, result list, distance function and
  engine sort, the list returned by \<open>generateCandidates\<close> has at most 30 entries, no two
  of its entries join the same unordered pair of nodes, none joins a pair that has an edge
  in the original or in the failed graph, and priorities never increase along the list.
\<close>

theorem C6_candidate_list:
  fixes haversine odSort ns originalGraph failedGraph scenarioResults
  defines "cs \<equiv> generateCandidates haversine odSort ns originalGraph failedGraph scenarioResults"
  shows "length cs \<le> 30 \<and>
     (\<forall>i < length cs. \<forall>j < length cs. i \<noteq> j \<longrightarrow>
        {c_from (cs ! i), c_to (cs ! i)} \<noteq> {c_from (cs ! j), c_to (cs ! j)}) \<and>
     (\<forall>c \<in> set cs. \<not> hasEdge originalGraph (c_from c) (c_to c) \<and>
                     \<not> hasEdge failedGraph (c_from c) (c_to c)) \<and>
     sorted_wrt (\<lambda>a b. priority a \<ge> priority b) cs"
proof -
  define busHubs where "busHubs = filter (\<lambda>n. node_type n = Some ''hub'' \<and> layer n = ''bus'') ns"
  define majorHubs where "majorHubs =
    filter (\<lambda>n. (node_type n = Some ''hub'' \<or> node_type n = Some ''station'') \<and>
                (layer n = ''bus'' \<or> layer n = ''metro'')) ns"
  define st4 where "st4 = expressHubs haversine ns originalGraph failedGraph majorHubs
    (foldl (odStep haversine ns originalGraph failedGraph)
       (crossRail haversine ns originalGraph failedGraph
          (hubNeighbors haversine ns originalGraph failedGraph busHubs ([], {})))
       (topAffected odSort scenarioResults))"
  have cs: "cs = take 30 (js_sort priorityOrder (fst st4))"
    by (simp add: cs_def generateCandidates_def Let_def st4_def busHubs_def majorHubs_def)
  have "candInv originalGraph failedGraph ([], {})" by (simp add: candInv_def)
  then have "candInv originalGraph failedGraph st4"
    unfolding st4_def
    by (intro expressHubs_inv foldl_inv [where P = "candInv originalGraph failedGraph"]
        odStep_inv crossRail_inv hubNeighbors_inv)
  then have d: "distinct (map (\<lambda>c. {c_from c, c_to c}) (fst st4))"
    and e: "\<forall>c \<in> set (fst st4). \<not> hasEdge failedGraph (c_from c) (c_to c) \<and>
                            \<not> hasEdge originalGraph (c_from c) (c_to c)"
    by (simp_all add: candInv_def)
  have len: "length cs \<le> 30" by (simp add: cs)
  have "distinct (map (\<lambda>c. {c_from c, c_to c}) cs)"
    using d by (simp add: cs take_map [symmetric] distinct_map_js_sort distinct_take
        del: distinct_map)
  then have nodup: "\<forall>i < length cs. \<forall>j < length cs. i \<noteq> j \<longrightarrow>
        {c_from (cs ! i), c_to (cs ! i)} \<noteq> {c_from (cs ! j), c_to (cs ! j)}"
    by (simp add: distinct_conv_nth)
  have "set cs \<subseteq> set (fst st4)"
    using set_take_subset [of 30 "js_sort priorityOrder (fst st4)"] by (simp add: cs set_js_sort)
  with e have noedge: "\<forall>c \<in> set cs. \<not> hasEdge originalGraph (c_from c) (c_to c) \<and>
                     \<not> hasEdge failedGraph (c_from c) (c_to c)" by blast
  have srt: "sorted_wrt (\<lambda>a b. priority a \<ge> priority b) cs"
    by (simp add: cs sorted_wrt_take sorted_js_sort_priority)
  from len nodup noedge srt show ?thesis by blast
qed

lemma exHubCandidates:
  "generateCandidates exDistance js_sort exHubNodes exIsolatedGraph exIsolatedGraph [] =
     [\<lparr>c_from = ''C'', c_to = ''D'', fromName = Some ''C'', toName = Some ''D'',
       c_type = ''hub_neighbor'', c_distance = 111 * (2 / 100), priority = 10\<rparr>]"
  by (simp add: generateCandidates_def exHubNodes_def exHub_def hubPair_def exDistance_def
      addCandidate_def hasEdge_def exIsolatedGraph_def crossRail_def topAffected_def
      expressPair_def Let_def)

theorem C6_candidate_list_witness:
  "generateCandidates exDistance js_sort exHubNodes exIsolatedGraph exIsolatedGraph [] =
     [\<lparr>c_from = ''C'', c_to = ''D'', fromName = Some ''C'', toName = Some ''D'',
       c_type = ''hub_neighbor'', c_distance = 111 * (2 / 100), priority = 10\<rparr>] \<and>
   \<not> hasEdge exIsolatedGraph ''C'' ''D''"
proof -
  from C6_candidate_list [of exDistance js_sort exHubNodes exIsolatedGraph exIsolatedGraph "[]"]
  have "\<forall>c \<in> set (generateCandidates exDistance js_sort exHubNodes exIsolatedGraph
      exIsolatedGraph []). \<not> hasEdge exIsolatedGraph (c_from c) (c_to c)"
    by blast
  then have "\<not> hasEdge exIsolatedGraph ''C'' ''D''" by (simp add: exHubCandidates)
  with exHubCandidates show ?thesis by simp
qed

text \<open>
  Claim C7 at a failing input. With six reachable results of 15, 14, 10, 13, 12 and 11
  minutes the comparator is negative for every ordered pair, so it orders nothing. A
  stable insertion sort then leaves the list as it is and the first five are selected,
  the 10-minute result among them and the 11-minute one not; an engine that takes the
  list for a descending run and reverses it selects 11, 12, 13, 10 and 14, leaving out
  the 15-minute result. The five largest times are 15, 14, 13, 12 and 11.
\<close>

theorem C7_od_selection_not_largest:
  "list_all (\<lambda>a. list_all (\<lambda>b. odCompare a b < 0) exResults) exResults \<and>
   map pathTime (topAffected js_sort exResults) = [Fin 15, Fin 14, Fin 10, Fin 13, Fin 12] \<and>
   map pathTime (topAffected (\<lambda>cmp. rev) exResults) = [Fin 11, Fin 12, Fin 13, Fin 10, Fin 14]"
  by (simp add: topAffected_def exResults_def exOdResult_def odCompare_def js_sub_def)

section \<open>Properties of the greedy recommender\<close>

lemma js_gt_sub_zero: "js_gt (js_sub b t) (Fin 0) = js_lt t b"
  by (cases b; cases t) (simp_all add: js_gt_def js_sub_def)

lemma js_lt_trans: "js_lt a b \<Longrightarrow> js_lt b c \<Longrightarrow> js_lt a c"
  by (cases a; cases b; cases c) simp_all

lemma js_gt_not_le: "js_gt a (Fin 0) \<Longrightarrow> \<not> js_le a (Fin 0)"
  by (cases a) (simp_all add: js_gt_def)

lemma addEdge_attrs: "addEdge g a b x = Inr g1 \<Longrightarrow> \<exists>g2. addEdge g a b y = Inr g2"
  by (simp add: addEdge_def split: if_splits)

lemma evaluateCandidate_eq:
  "evaluateCandidate lib ods obj co base wg rs c =
     (case valueWith lib ods obj co wg c of
        None \<Rightarrow> rs
      | Some v \<Rightarrow>
          if js_gt (js_sub base v) (bestImprovement rs)
          then evaluateCandidate lib ods obj co base wg rs c
          else rs)"
  by (auto simp: evaluateCandidate_def valueWith_def Let_def split: prod.splits sum.splits)

lemma scanned_step:
  assumes "scanned lib ods obj co base wg rs S"
  shows "scanned lib ods obj co base wg (evaluateCandidate lib ods obj co base wg rs c) (insert c S)"
proof (cases "valueWith lib ods obj co wg c")
  case None
  then have "evaluateCandidate lib ods obj co base wg rs c = rs"
    by (subst evaluateCandidate_eq) simp
  moreover from None have "\<not> improves lib ods obj co base wg c" by (simp add: improves_def)
  ultimately show ?thesis using assms by (auto simp: scanned_def)
next
  case (Some v)
  show ?thesis
  proof (cases "js_gt (js_sub base v) (bestImprovement rs)")
    case True
    from assms have "bestImprovement rs = Fin 0 \<or> js_gt (bestImprovement rs) (Fin 0)"
      by (auto simp: scanned_def)
    with True have pos: "js_gt (js_sub base v) (Fin 0)"
      by (auto simp: js_gt_def intro: js_lt_trans)
    then have imp: "improves lib ods obj co base wg c"
      by (simp add: improves_def Some js_gt_sub_zero)
    from Some True obtain t k m ms where
      "evaluateCandidate lib ods obj co base wg rs c =
         \<lparr>bestCandidate = Some (chosenOf c t k m), bestImprovement = js_sub base v,
          bestMetrics = ms\<rparr>"
      by (auto simp: evaluateCandidate_def valueWith_def Let_def split: prod.splits sum.splits)
    with pos imp show ?thesis
      by (auto simp: scanned_def chosenOf_def)
  next
    case False
    then have same: "evaluateCandidate lib ods obj co base wg rs c = rs"
      by (subst evaluateCandidate_eq) (simp add: Some)
    from assms consider
      (none) "bestCandidate rs = None" "bestImprovement rs = Fin 0"
        "\<forall>c \<in> S. \<not> improves lib ods obj co base wg c" |
      (some) b where "bestCandidate rs = Some b" "js_gt (bestImprovement rs) (Fin 0)"
        "\<exists>c \<in> S. c_from b = c_from c \<and> c_to b = c_to c \<and> improves lib ods obj co base wg c"
      by (auto simp: scanned_def)
    then show ?thesis
    proof cases
      case none
      from False none(2) have "\<not> improves lib ods obj co base wg c"
        by (simp add: improves_def Some js_gt_sub_zero)
      with none same show ?thesis by (auto simp: scanned_def)
    next
      case some
      with same show ?thesis by (auto simp: scanned_def)
    qed
  qed
qed

lemma scanned_foldl:
  "scanned lib ods obj co base wg rs S \<Longrightarrow>
   scanned lib ods obj co base wg (foldl (evaluateCandidate lib ods obj co base wg) rs cs)
     (S \<union> set cs)"
proof (induction cs arbitrary: rs S)
  case Nil
  then show ?case by simp
next
  case (Cons c cs)
  from Cons.IH [OF scanned_step [OF Cons.prems, of c]] show ?case by simp
qed

lemma scanned_round:
  "scanned lib ods obj co base wg
     (foldl (evaluateCandidate lib ods obj co base wg) roundStart cs) (set cs)"
  using scanned_foldl [of lib ods obj co base wg roundStart "{}" cs]
  by (simp add: scanned_def roundStart_def)

declare greedyLoop.simps [simp del]

lemma reports_append: "reports cb (xs @ ys) s = reports cb ys (reports cb xs s)"
  by (simp add: reports_def)

lemma scanCandidates_eq:
  "scanCandidates cb lib ods obj co base wg budget it n i cs (rs, s) =
     (foldl (evaluateCandidate lib ods obj co base wg) rs cs,
      reports cb (map (\<lambda>j. \<lparr>p_iteration = it, candidateIndex = j, totalCandidates = n,
                             p_budget = budget\<rparr>) [i..<i + length cs]) s)"
proof (induction cs arbitrary: i rs s)
  case Nil
  show ?case by (simp add: reports_def)
next
  case (Cons c cs)
  have "[i..<i + length (c # cs)] = i # [Suc i..<Suc i + length cs]"
    by (subst upt_rec) simp
  then show ?case by (simp add: Cons.IH reports_def)
qed

lemma scan_round:
  "scanCandidates cb lib ods obj co base wg budget it (length cs) 0 cs (roundStart, s) =
     (foldl (evaluateCandidate lib ods obj co base wg) roundStart cs,
      reports cb (roundEvents budget it (length cs)) s)"
  by (simp add: scanCandidates_eq roundEvents_def)

lemma improves_addEdge:
  assumes "improves lib ods obj co base wg c"
  shows "\<exists>g. addEdge wg (c_from c) (c_to c) y = Inr g"
proof -
  from assms obtain x g1 where "addEdge wg (c_from c) (c_to c) x = Inr g1"
    by (auto simp: improves_def valueWith_def split: option.splits prod.splits sum.splits)
  then show ?thesis by (rule addEdge_attrs)
qed

lemma greedyLoop_done:
  "\<not> (it < budget \<and> rem \<noteq> []) \<Longrightarrow>
   greedyLoop cb lib ods obj co base budget it wg rem sel s = (sel, wg, s)"
  by (subst greedyLoop.simps) (simp only: if_False)

lemma greedyLoop_stop:
  assumes "it < budget" and "rem \<noteq> []"
    and "\<forall>c \<in> set rem. \<not> improves lib ods obj co base wg c"
  shows "greedyLoop cb lib ods obj co base budget it wg rem sel s =
     (sel, wg, reports cb (roundEvents budget it (length rem)) s)"
proof -
  from scanned_round [of lib ods obj co base wg rem] assms(3)
  have "bestCandidate (foldl (evaluateCandidate lib ods obj co base wg) roundStart rem) = None"
    by (auto simp: scanned_def)
  with assms(1,2) show ?thesis
    by (subst greedyLoop.simps) (simp add: scan_round)
qed

lemma greedyLoop_select:
  assumes "it < budget" and "\<exists>c \<in> set rem. improves lib ods obj co base wg c"
  shows "\<exists>best imp ms wg'.
     (\<exists>c \<in> set rem. c_from best = c_from c \<and> c_to best = c_to c \<and>
        improves lib ods obj co base wg c) \<and>
     addEdge wg (c_from best) (c_to best)
       (candidateAttrs obj (b_time best) (b_cost best) (b_transportMode best) (c_distance best))
       = Inr wg' \<and>
     greedyLoop cb lib ods obj co base budget it wg rem sel s =
       greedyLoop cb lib ods obj co base budget (Suc it) wg'
         (filter (\<lambda>c. \<not> (c_from c = c_from best \<and> c_to c = c_to best)) rem)
         (sel @ [recommendationOf best imp ms])
         (reports cb (roundEvents budget it (length rem)) s)"
proof -
  let ?rs = "foldl (evaluateCandidate lib ods obj co base wg) roundStart rem"
  from assms(2) have ne: "rem \<noteq> []" by auto
  from scanned_round [of lib ods obj co base wg rem] assms(2)
  obtain b c where b: "bestCandidate ?rs = Some b" and pos: "js_gt (bestImprovement ?rs) (Fin 0)"
    and c: "c \<in> set rem" "c_from b = c_from c" "c_to b = c_to c"
      "improves lib ods obj co base wg c"
    by (auto simp: scanned_def)
  from improves_addEdge [OF c(4)] c(2,3) obtain wg' where
    add: "addEdge wg (c_from b) (c_to b)
       (candidateAttrs obj (b_time b) (b_cost b) (b_transportMode b) (c_distance b)) = Inr wg'"
    by metis
  from assms(1) ne b js_gt_not_le [OF pos] add
  have "greedyLoop cb lib ods obj co base budget it wg rem sel s =
       greedyLoop cb lib ods obj co base budget (Suc it) wg'
         (filter (\<lambda>c. \<not> (c_from c = c_from b \<and> c_to c = c_to b)) rem)
         (sel @ [recommendationOf b (bestImprovement ?rs) (bestMetrics ?rs)])
         (reports cb (roundEvents budget it (length rem)) s)"
    by (subst greedyLoop.simps) (simp add: scan_round)
  with c add show ?thesis by blast
qed

lemma greedyLoop_reports:
  "\<exists>evs. snd (snd (greedyLoop cb lib ods obj co base budget it wg rem sel s)) = reports cb evs s"
proof (induction "budget - it" arbitrary: it wg rem sel s)
  case 0
  then have "\<not> (it < budget \<and> rem \<noteq> [])" by simp
  then have "snd (snd (greedyLoop cb lib ods obj co base budget it wg rem sel s)) = reports cb [] s"
    by (simp add: greedyLoop_done reports_def)
  then show ?case by blast
next
  case (Suc k)
  then have lt: "it < budget" by simp
  consider (empty) "rem = []"
    | (stop) "rem \<noteq> []" "\<forall>c \<in> set rem. \<not> improves lib ods obj co base wg c"
    | (select) "\<exists>c \<in> set rem. improves lib ods obj co base wg c"
    by blast
  then show ?case
  proof cases
    case empty
    then have "snd (snd (greedyLoop cb lib ods obj co base budget it wg rem sel s)) = reports cb [] s"
      by (simp add: greedyLoop_done reports_def)
    then show ?thesis by blast
  next
    case stop
    from greedyLoop_stop [OF lt stop, of cb sel s] show ?thesis by (metis snd_conv)
  next
    case select
    from greedyLoop_select [OF lt select, of cb sel s] obtain best imp ms wg' where
      eq: "greedyLoop cb lib ods obj co base budget it wg rem sel s =
       greedyLoop cb lib ods obj co base budget (Suc it) wg'
         (filter (\<lambda>c. \<not> (c_from c = c_from best \<and> c_to c = c_to best)) rem)
         (sel @ [recommendationOf best imp ms])
         (reports cb (roundEvents budget it (length rem)) s)"
      by blast
    from Suc.hyps(2) have k: "k = budget - Suc it" by simp
    from Suc.hyps(1) [OF k] obtain evs where
      "snd (snd (greedyLoop cb lib ods obj co base budget (Suc it) wg'
         (filter (\<lambda>c. \<not> (c_from c = c_from best \<and> c_to c = c_to best)) rem)
         (sel @ [recommendationOf best imp ms])
         (reports cb (roundEvents budget it (length rem)) s))) =
       reports cb evs (reports cb (roundEvents budget it (length rem)) s)"
      by blast
    then have "snd (snd (greedyLoop cb lib ods obj co base budget it wg rem sel s)) =
       reports cb (roundEvents budget it (length rem) @ evs) s"
      unfolding eq by (simp add: reports_append)
    then show ?thesis by blast
  qed
qed

text \<open>Every run of the loop from a state that allows a round starts by scanning the pool.\<close>

lemma greedyLoop_first_scan:
  assumes "it < budget" and "rem \<noteq> []"
  shows "\<exists>rest. snd (snd (greedyLoop cb lib ods obj co base budget it wg rem sel s)) =
     reports cb (roundEvents budget it (length rem) @ rest) s"
proof (cases "\<exists>c \<in> set rem. improves lib ods obj co base wg c")
  case False
  then have "\<forall>c \<in> set rem. \<not> improves lib ods obj co base wg c" by blast
  from greedyLoop_stop [OF assms this, of cb sel s]
  have "snd (snd (greedyLoop cb lib ods obj co base budget it wg rem sel s)) =
     reports cb (roundEvents budget it (length rem) @ []) s"
    by simp
  then show ?thesis by blast
next
  case True
  from greedyLoop_select [OF assms(1) True, of cb sel s] obtain best imp ms wg' where
    eq: "greedyLoop cb lib ods obj co base budget it wg rem sel s =
       greedyLoop cb lib ods obj co base budget (Suc it) wg'
         (filter (\<lambda>c. \<not> (c_from c = c_from best \<and> c_to c = c_to best)) rem)
         (sel @ [recommendationOf best imp ms])
         (reports cb (roundEvents budget it (length rem)) s)"
    by blast
  from greedyLoop_reports [of cb lib ods obj co base budget "Suc it" wg'
      "filter (\<lambda>c. \<not> (c_from c = c_from best \<and> c_to c = c_to best)) rem"
      "sel @ [recommendationOf best imp ms]" "reports cb (roundEvents budget it (length rem)) s"]
  obtain evs where
    "snd (snd (greedyLoop cb lib ods obj co base budget (Suc it) wg'
         (filter (\<lambda>c. \<not> (c_from c = c_from best \<and> c_to c = c_to best)) rem)
         (sel @ [recommendationOf best imp ms])
         (reports cb (roundEvents budget it (length rem)) s))) =
       reports cb evs (reports cb (roundEvents budget it (length rem)) s)"
    by blast
  then have "snd (snd (greedyLoop cb lib ods obj co base budget it wg rem sel s)) =
       reports cb (roundEvents budget it (length rem) @ evs) s"
    unfolding eq by (simp add: reports_append)
  then show ?thesis by blast
qed

lemma greedyLoop_result:
  "length (fst (greedyLoop cb lib ods obj co base budget it wg rem sel s))
     \<le> length sel + (budget - it) \<and>
   (distinct (map (\<lambda>r. (c_from r, c_to r)) sel) \<and>
    (\<lambda>r. (c_from r, c_to r)) ` set sel \<inter> (\<lambda>c. (c_from c, c_to c)) ` set rem = {} \<longrightarrow>
    distinct (map (\<lambda>r. (c_from r, c_to r))
      (fst (greedyLoop cb lib ods obj co base budget it wg rem sel s))) \<and>
    (\<lambda>r. (c_from r, c_to r)) ` set (fst (greedyLoop cb lib ods obj co base budget it wg rem sel s))
      \<subseteq> (\<lambda>r. (c_from r, c_to r)) ` set sel \<union> (\<lambda>c. (c_from c, c_to c)) ` set rem)"
proof (induction "budget - it" arbitrary: it wg rem sel s)
  case 0
  then have "\<not> (it < budget \<and> rem \<noteq> [])" by simp
  then have "greedyLoop cb lib ods obj co base budget it wg rem sel s = (sel, wg, s)"
    by (rule greedyLoop_done)
  then show ?case by auto
next
  case (Suc k)
  then have lt: "it < budget" by simp
  show ?case
  proof (cases "\<exists>c \<in> set rem. improves lib ods obj co base wg c")
    case False
    have "fst (greedyLoop cb lib ods obj co base budget it wg rem sel s) = sel"
    proof (cases "rem = []")
      case True
      then show ?thesis by (simp add: greedyLoop_done)
    next
      case ne: False
      from False have "\<forall>c \<in> set rem. \<not> improves lib ods obj co base wg c" by blast
      then show ?thesis by (simp add: greedyLoop_stop [OF lt ne])
    qed
    then show ?thesis by auto
  next
    case True
    from greedyLoop_select [OF lt True, of cb sel s] obtain best imp ms wg' c where
      c: "c \<in> set rem" "c_from best = c_from c" "c_to best = c_to c"
      and eq: "greedyLoop cb lib ods obj co base budget it wg rem sel s =
       greedyLoop cb lib ods obj co base budget (Suc it) wg'
         (filter (\<lambda>c. \<not> (c_from c = c_from best \<and> c_to c = c_to best)) rem)
         (sel @ [recommendationOf best imp ms])
         (reports cb (roundEvents budget it (length rem)) s)"
      by blast
    let ?rem' = "filter (\<lambda>c. \<not> (c_from c = c_from best \<and> c_to c = c_to best)) rem"
    let ?sel' = "sel @ [recommendationOf best imp ms]"
    let ?s' = "reports cb (roundEvents budget it (length rem)) s"
    from Suc.hyps(2) have k: "k = budget - Suc it" by simp
    note IH = Suc.hyps(1) [OF k, of wg' ?rem' ?sel' ?s']
    have pr: "(c_from (recommendationOf best imp ms), c_to (recommendationOf best imp ms))
        = (c_from c, c_to c)"
      using c by (simp add: recommendationOf_def)
    have len: "length (fst (greedyLoop cb lib ods obj co base budget it wg rem sel s))
        \<le> length sel + (budget - it)"
    proof -
      from IH have "length (fst (greedyLoop cb lib ods obj co base budget (Suc it) wg' ?rem' ?sel' ?s'))
          \<le> length ?sel' + (budget - Suc it)"
        by (rule conjunct1)
      with lt show ?thesis unfolding eq by simp
    qed
    have rest: "distinct (map (\<lambda>r. (c_from r, c_to r))
          (fst (greedyLoop cb lib ods obj co base budget it wg rem sel s))) \<and>
        (\<lambda>r. (c_from r, c_to r)) ` set (fst (greedyLoop cb lib ods obj co base budget it wg rem sel s))
          \<subseteq> (\<lambda>r. (c_from r, c_to r)) ` set sel \<union> (\<lambda>c. (c_from c, c_to c)) ` set rem"
      if d: "distinct (map (\<lambda>r. (c_from r, c_to r)) sel)"
        and x: "(\<lambda>r. (c_from r, c_to r)) ` set sel \<inter> (\<lambda>c. (c_from c, c_to c)) ` set rem = {}"
    proof -
      from c(1) x have fresh: "(c_from c, c_to c) \<notin> (\<lambda>r. (c_from r, c_to r)) ` set sel"
        by blast
      have d': "distinct (map (\<lambda>r. (c_from r, c_to r)) ?sel')"
        using d fresh pr by simp
      have x': "(\<lambda>r. (c_from r, c_to r)) ` set ?sel' \<inter> (\<lambda>c. (c_from c, c_to c)) ` set ?rem' = {}"
        using x pr c(2,3) by auto
      from IH d' x' have
        "distinct (map (\<lambda>r. (c_from r, c_to r))
           (fst (greedyLoop cb lib ods obj co base budget (Suc it) wg' ?rem' ?sel' ?s')))"
        and sub: "(\<lambda>r. (c_from r, c_to r)) `
            set (fst (greedyLoop cb lib ods obj co base budget (Suc it) wg' ?rem' ?sel' ?s'))
          \<subseteq> (\<lambda>r. (c_from r, c_to r)) ` set ?sel' \<union> (\<lambda>c. (c_from c, c_to c)) ` set ?rem'"
        by blast+
      moreover have "(\<lambda>r. (c_from r, c_to r)) ` set ?sel' \<union> (\<lambda>c. (c_from c, c_to c)) ` set ?rem'
          \<subseteq> (\<lambda>r. (c_from r, c_to r)) ` set sel \<union> (\<lambda>c. (c_from c, c_to c)) ` set rem"
        using pr c(1) by auto
      ultimately show ?thesis unfolding eq by blast
    qed
    from len rest show ?thesis by blast
  qed
qed

lemma greedyLoop_extends:
  "\<exists>later. fst (greedyLoop cb lib ods obj co base budget it wg rem sel s) = sel @ later"
proof (induction "budget - it" arbitrary: it wg rem sel s)
  case 0
  then have "\<not> (it < budget \<and> rem \<noteq> [])" by simp
  then show ?case by (simp add: greedyLoop_done)
next
  case (Suc k)
  then have lt: "it < budget" by simp
  consider (empty) "rem = []"
    | (stop) "rem \<noteq> []" "\<forall>c \<in> set rem. \<not> improves lib ods obj co base wg c"
    | (select) "\<exists>c \<in> set rem. improves lib ods obj co base wg c"
    by blast
  then show ?case
  proof cases
    case empty
    then show ?thesis by (simp add: greedyLoop_done)
  next
    case stop
    then show ?thesis by (simp add: greedyLoop_stop [OF lt])
  next
    case select
    from greedyLoop_select [OF lt select, of cb sel s] obtain best imp ms wg' where
      eq: "greedyLoop cb lib ods obj co base budget it wg rem sel s =
       greedyLoop cb lib ods obj co base budget (Suc it) wg'
         (filter (\<lambda>c. \<not> (c_from c = c_from best \<and> c_to c = c_to best)) rem)
         (sel @ [recommendationOf best imp ms])
         (reports cb (roundEvents budget it (length rem)) s)"
      by blast
    from Suc.hyps(2) have k: "k = budget - Suc it" by simp
    from Suc.hyps(1) [OF k, of wg'
        "filter (\<lambda>c. \<not> (c_from c = c_from best \<and> c_to c = c_to best)) rem"
        "sel @ [recommendationOf best imp ms]"
        "reports cb (roundEvents budget it (length rem)) s"]
    show ?thesis unfolding eq by auto
  qed
qed

text \<open>
  Claim C4. For every input and every progress callback, \<open>greedyRecommendation\<close> returns
  at most \<open>budget\<close> recommendations, no two of them for the same (from, to) pair, all of
  them from the candidate list. From any state of the selection loop with budget left:
  when no remaining candidate's insertion yields an objective value strictly below the
  reference value, the loop scans the pool once, makes no further call to the callback
  and returns what it has selected so far, whatever budget is left; when some remaining
  candidate does, the round commits one such candidate to the working graph, the
  recommendation for it is part of the final selection, and the loop goes on with a
  strictly smaller pool, from which every candidate of that (from, to) pair has been
  removed: the calls the next round makes to the callback report the size of that smaller
  pool.
\<close>

theorem C4_greedy_recommendation:
  "length (selectedLinks (fst (greedyRecommendation lib failedGraph candidates odPairs budget
      objective progressCallback tod s0))) \<le> budget \<and>
   distinct (map (\<lambda>r. (c_from r, c_to r))
      (selectedLinks (fst (greedyRecommendation lib failedGraph candidates odPairs budget
         objective progressCallback tod s0)))) \<and>
   (\<lambda>r. (c_from r, c_to r)) `
      set (selectedLinks (fst (greedyRecommendation lib failedGraph candidates odPairs budget
         objective progressCallback tod s0)))
     \<subseteq> (\<lambda>c. (c_from c, c_to c)) ` set candidates \<and>
   (iteration < budget \<and>
    (\<forall>c \<in> set remaining. \<not> improves lib odPairs objective co baselineValue workingGraph c) \<longrightarrow>
      greedyLoop progressCallback lib odPairs objective co baselineValue budget iteration
          workingGraph remaining selected s
        = (selected, workingGraph,
           reports progressCallback (roundEvents budget iteration (length remaining)) s)) \<and>
   (iteration < budget \<and>
    (\<exists>c \<in> set remaining. improves lib odPairs objective co baselineValue workingGraph c) \<longrightarrow>
      (\<exists>best imp ms workingGraph'.
         (\<exists>c \<in> set remaining. c_from best = c_from c \<and> c_to best = c_to c \<and>
            improves lib odPairs objective co baselineValue workingGraph c) \<and>
         addEdge workingGraph (c_from best) (c_to best)
           (candidateAttrs objective (b_time best) (b_cost best) (b_transportMode best)
              (c_distance best)) = Inr workingGraph' \<and>
         length (filter (\<lambda>c. \<not> (c_from c = c_from best \<and> c_to c = c_to best)) remaining)
           < length remaining \<and>
         greedyLoop progressCallback lib odPairs objective co baselineValue budget iteration
             workingGraph remaining selected s =
           greedyLoop progressCallback lib odPairs objective co baselineValue budget
             (Suc iteration) workingGraph'
             (filter (\<lambda>c. \<not> (c_from c = c_from best \<and> c_to c = c_to best)) remaining)
             (selected @ [recommendationOf best imp ms])
             (reports progressCallback (roundEvents budget iteration (length remaining)) s) \<and>
         (\<exists>later. fst (greedyLoop progressCallback lib odPairs objective co baselineValue budget
             iteration workingGraph remaining selected s)
            = selected @ recommendationOf best imp ms # later) \<and>
         (Suc iteration < budget \<and>
          filter (\<lambda>c. \<not> (c_from c = c_from best \<and> c_to c = c_to best)) remaining \<noteq> [] \<longrightarrow>
            (\<exists>rest. snd (snd (greedyLoop progressCallback lib odPairs objective co baselineValue
                 budget iteration workingGraph remaining selected s)) =
               reports progressCallback
                 (roundEvents budget iteration (length remaining) @
                  roundEvents budget (Suc iteration)
                    (length (filter (\<lambda>c. \<not> (c_from c = c_from best \<and> c_to c = c_to best))
                       remaining)) @ rest) s))))"
proof -
  let ?base = "objectiveValue objective (computeMetrics lib failedGraph odPairs objective)"
  let ?loop = "greedyLoop progressCallback lib odPairs objective (coefficientsOf tod) ?base
      budget 0 failedGraph candidates [] s0"
  have sel: "selectedLinks (fst (greedyRecommendation lib failedGraph candidates odPairs budget
      objective progressCallback tod s0)) = fst ?loop"
    by (simp add: greedyRecommendation_def Let_def split: prod.splits)
  from greedyLoop_result [of progressCallback lib odPairs objective "coefficientsOf tod" ?base
      budget 0 failedGraph candidates "[]" s0]
  have a: "length (fst ?loop) \<le> budget"
    and b: "distinct (map (\<lambda>r. (c_from r, c_to r)) (fst ?loop))"
    and c: "(\<lambda>r. (c_from r, c_to r)) ` set (fst ?loop) \<subseteq> (\<lambda>c. (c_from c, c_to c)) ` set candidates"
    by simp_all
  have d: "greedyLoop progressCallback lib odPairs objective co baselineValue budget iteration
          workingGraph remaining selected s
        = (selected, workingGraph,
           reports progressCallback (roundEvents budget iteration (length remaining)) s)"
    if h: "iteration < budget \<and>
      (\<forall>c \<in> set remaining. \<not> improves lib odPairs objective co baselineValue workingGraph c)"
  proof (cases "remaining = []")
    case True
    then show ?thesis by (simp add: greedyLoop_done roundEvents_def reports_def)
  next
    case False
    with h show ?thesis by (intro greedyLoop_stop) simp_all
  qed
  have e: "\<exists>best imp ms workingGraph'.
         (\<exists>c \<in> set remaining. c_from best = c_from c \<and> c_to best = c_to c \<and>
            improves lib odPairs objective co baselineValue workingGraph c) \<and>
         addEdge workingGraph (c_from best) (c_to best)
           (candidateAttrs objective (b_time best) (b_cost best) (b_transportMode best)
              (c_distance best)) = Inr workingGraph' \<and>
         length (filter (\<lambda>c. \<not> (c_from c = c_from best \<and> c_to c = c_to best)) remaining)
           < length remaining \<and>
         greedyLoop progressCallback lib odPairs objective co baselineValue budget iteration
             workingGraph remaining selected s =
           greedyLoop progressCallback lib odPairs objective co baselineValue budget
             (Suc iteration) workingGraph'
             (filter (\<lambda>c. \<not> (c_from c = c_from best \<and> c_to c = c_to best)) remaining)
             (selected @ [recommendationOf best imp ms])
             (reports progressCallback (roundEvents budget iteration (length remaining)) s) \<and>
         (\<exists>later. fst (greedyLoop progressCallback lib odPairs objective co baselineValue budget
             iteration workingGraph remaining selected s)
            = selected @ recommendationOf best imp ms # later) \<and>
         (Suc iteration < budget \<and>
          filter (\<lambda>c. \<not> (c_from c = c_from best \<and> c_to c = c_to best)) remaining \<noteq> [] \<longrightarrow>
            (\<exists>rest. snd (snd (greedyLoop progressCallback lib odPairs objective co baselineValue
                 budget iteration workingGraph remaining selected s)) =
               reports progressCallback
                 (roundEvents budget iteration (length remaining) @
                  roundEvents budget (Suc iteration)
                    (length (filter (\<lambda>c. \<not> (c_from c = c_from best \<and> c_to c = c_to best))
                       remaining)) @ rest) s))"
    if h: "iteration < budget \<and>
      (\<exists>c \<in> set remaining. improves lib odPairs objective co baselineValue workingGraph c)"
  proof -
    from h have lt: "iteration < budget"
      and ex: "\<exists>c \<in> set remaining. improves lib odPairs objective co baselineValue workingGraph c"
      by simp_all
    from greedyLoop_select [OF lt ex, of progressCallback selected s]
    obtain best imp ms workingGraph' where
      pick: "\<exists>c \<in> set remaining. c_from best = c_from c \<and> c_to best = c_to c \<and>
            improves lib odPairs objective co baselineValue workingGraph c"
      and add: "addEdge workingGraph (c_from best) (c_to best)
           (candidateAttrs objective (b_time best) (b_cost best) (b_transportMode best)
              (c_distance best)) = Inr workingGraph'"
      and eq: "greedyLoop progressCallback lib odPairs objective co baselineValue budget iteration
             workingGraph remaining selected s =
           greedyLoop progressCallback lib odPairs objective co baselineValue budget
             (Suc iteration) workingGraph'
             (filter (\<lambda>c. \<not> (c_from c = c_from best \<and> c_to c = c_to best)) remaining)
             (selected @ [recommendationOf best imp ms])
             (reports progressCallback (roundEvents budget iteration (length remaining)) s)"
      by blast
    let ?pool = "filter (\<lambda>c. \<not> (c_from c = c_from best \<and> c_to c = c_to best)) remaining"
    let ?s' = "reports progressCallback (roundEvents budget iteration (length remaining)) s"
    from pick obtain c0 where "c0 \<in> set remaining" "c_from best = c_from c0"
      "c_to best = c_to c0"
      by blast
    then have less: "length ?pool < length remaining"
      by (intro length_filter_less [of c0]) simp_all
    from greedyLoop_extends [of progressCallback lib odPairs objective co baselineValue budget
        "Suc iteration" workingGraph' ?pool "selected @ [recommendationOf best imp ms]" ?s']
    have later: "\<exists>later. fst (greedyLoop progressCallback lib odPairs objective co baselineValue
        budget iteration workingGraph remaining selected s)
          = selected @ recommendationOf best imp ms # later"
      unfolding eq by simp
    have next_round: "\<exists>rest. snd (snd (greedyLoop progressCallback lib odPairs objective co
           baselineValue budget iteration workingGraph remaining selected s)) =
         reports progressCallback
           (roundEvents budget iteration (length remaining) @
            roundEvents budget (Suc iteration) (length ?pool) @ rest) s"
      if "Suc iteration < budget \<and> ?pool \<noteq> []"
    proof -
      from that have "Suc iteration < budget" "?pool \<noteq> []" by simp_all
      from greedyLoop_first_scan [OF this, of progressCallback lib odPairs objective co
          baselineValue workingGraph' "selected @ [recommendationOf best imp ms]" ?s']
      show ?thesis unfolding eq by (simp add: reports_append)
    qed
    from pick add less eq later next_round show ?thesis by blast
  qed
  show ?thesis
    unfolding sel
  proof (intro conjI impI)
    show "length (fst ?loop) \<le> budget" by (rule a)
    show "distinct (map (\<lambda>r. (c_from r, c_to r)) (fst ?loop))" by (rule b)
    show "(\<lambda>r. (c_from r, c_to r)) ` set (fst ?loop) \<subseteq> (\<lambda>c. (c_from c, c_to c)) ` set candidates"
      by (rule c)
  qed (erule d, erule e)
qed


lemma reports_exLog: "reports exLog ps s = s @ ps"
  by (induction ps arbitrary: s) (simp_all add: reports_def report_def exLog_def)

lemma hasEdge_addEdge: "addEdge g a b x = Inr g' \<Longrightarrow> hasEdge g u v \<Longrightarrow> hasEdge g' u v"
  by (auto simp: addEdge_def hasEdge_def split: if_splits)

lemma existing_edge_never_improves:
  "hasEdge wg (c_from c) (c_to c) \<Longrightarrow> \<not> improves lib ods obj co base wg c"
  by (simp add: improves_def valueWith_def addEdge_def split: prod.splits)

lemma exValueWith:
  "valueWith exNullLibrary [exPairST] ''transfers'' defaultCoefficients exTransferGraph exCandidate
     = Some (Fin 0)"
  by (simp add: valueWith_def candidateProperties_def candidateAttrs_def exCandidate_def
      exPairST_def defaultCoefficients_def addEdge_def hasNode_def hasEdge_def joins_def
      exTransferGraph_def exAttrs_def objectiveValue_def computeMetrics_def metricsStep_def
      metricsStart_def computeShortestPath_def search_defs walk_defs UNREACHABLE_def
      unreachableResult_def)

lemma exBaseline:
  "objectiveValue ''transfers'' (computeMetrics exNullLibrary exTransferGraph [exPairST] ''transfers'')
     = Fin 1"
  by (simp add: objectiveValue_def computeMetrics_def metricsStep_def metricsStart_def
      exPairST_def exTransferResult UNREACHABLE_def)

lemma exImproves:
  "improves exNullLibrary [exPairST] ''transfers'' defaultCoefficients (Fin 1) exTransferGraph
     exCandidate"
  by (simp add: improves_def exValueWith)

lemma exJoined: "hasEdge exTransferGraph (c_from exCandidateSX) (c_to exCandidateSX)"
  by (simp add: hasEdge_def exTransferGraph_def exCandidateSX_def joins_def)

theorem C4_greedy_recommendation_witness:
  "improves exNullLibrary [exPairST] ''transfers'' defaultCoefficients (Fin 1) exTransferGraph
     exCandidate \<and>
   (\<exists>res. greedyRecommendation exNullLibrary exTransferGraph [exCandidate, exCandidateSX]
             [exPairST] 3 ''transfers'' exLog None [] =
           (res,
            [\<lparr>p_iteration = 0, candidateIndex = 0, totalCandidates = 2, p_budget = 3\<rparr>,
             \<lparr>p_iteration = 0, candidateIndex = 1, totalCandidates = 2, p_budget = 3\<rparr>,
             \<lparr>p_iteration = 1, candidateIndex = 0, totalCandidates = 1, p_budget = 3\<rparr>]) \<and>
           map (\<lambda>r. (c_from r, c_to r)) (selectedLinks res) = [(''S'', ''T'')])"
proof -
  let ?pool = "[exCandidate, exCandidateSX]"
  let ?s1 = "reports exLog (roundEvents 3 0 (length ?pool)) []"
  have h0: "0 < (3::nat) \<and> (\<exists>c \<in> set ?pool. improves exNullLibrary [exPairST] ''transfers''
      defaultCoefficients (Fin 1) exTransferGraph c)"
    using exImproves by simp
  note round0 = C4_greedy_recommendation [where lib = exNullLibrary
      and failedGraph = exTransferGraph and candidates = ?pool and odPairs = "[exPairST]"
      and budget = 3 and objective = "''transfers''" and progressCallback = exLog
      and tod = None and ?s0.0 = "[]" and iteration = 0 and remaining = ?pool
      and co = defaultCoefficients and baselineValue = "Fin 1"
      and workingGraph = exTransferGraph and selected = "[]" and s = "[]"]
  from round0 h0 obtain best imp ms g where
    pick: "\<exists>c \<in> set ?pool. c_from best = c_from c \<and> c_to best = c_to c \<and>
      improves exNullLibrary [exPairST] ''transfers'' defaultCoefficients (Fin 1) exTransferGraph c"
    and add: "addEdge exTransferGraph (c_from best) (c_to best)
      (candidateAttrs ''transfers'' (b_time best) (b_cost best) (b_transportMode best)
         (c_distance best)) = Inr g"
    and eq: "greedyLoop exLog exNullLibrary [exPairST] ''transfers'' defaultCoefficients (Fin 1) 3 0
        exTransferGraph ?pool [] [] =
      greedyLoop exLog exNullLibrary [exPairST] ''transfers'' defaultCoefficients (Fin 1) 3 (Suc 0) g
        (filter (\<lambda>c. \<not> (c_from c = c_from best \<and> c_to c = c_to best)) ?pool)
        ([] @ [recommendationOf best imp ms]) ?s1"
    by blast
  from pick existing_edge_never_improves [OF exJoined]
  have b: "c_from best = c_from exCandidate" "c_to best = c_to exCandidate"
    by auto
  then have f: "filter (\<lambda>c. \<not> (c_from c = c_from best \<and> c_to c = c_to best)) ?pool
      = [exCandidateSX]"
    by (simp add: exCandidate_def exCandidateSX_def)
  from hasEdge_addEdge [OF add exJoined]
  have h1: "Suc 0 < (3::nat) \<and>
      (\<forall>c \<in> set [exCandidateSX]. \<not> improves exNullLibrary [exPairST] ''transfers''
         defaultCoefficients (Fin 1) g c)"
    by (simp add: existing_edge_never_improves)
  note round1 = C4_greedy_recommendation [where lib = exNullLibrary
      and failedGraph = exTransferGraph and candidates = ?pool and odPairs = "[exPairST]"
      and budget = 3 and objective = "''transfers''" and progressCallback = exLog
      and tod = None and ?s0.0 = "[]" and iteration = "Suc 0" and remaining = "[exCandidateSX]"
      and co = defaultCoefficients and baselineValue = "Fin 1"
      and workingGraph = g and selected = "[recommendationOf best imp ms]" and s = ?s1]
  from round1 h1
  have stop: "greedyLoop exLog exNullLibrary [exPairST] ''transfers'' defaultCoefficients (Fin 1) 3
      (Suc 0) g [exCandidateSX] [recommendationOf best imp ms] ?s1 =
    ([recommendationOf best imp ms], g,
     reports exLog (roundEvents 3 (Suc 0) (length [exCandidateSX])) ?s1)"
    by blast
  have loop: "greedyLoop exLog exNullLibrary [exPairST] ''transfers'' defaultCoefficients (Fin 1) 3 0
        exTransferGraph ?pool [] [] =
      ([recommendationOf best imp ms], g,
       [\<lparr>p_iteration = 0, candidateIndex = 0, totalCandidates = 2, p_budget = 3\<rparr>,
        \<lparr>p_iteration = 0, candidateIndex = 1, totalCandidates = 2, p_budget = 3\<rparr>,
        \<lparr>p_iteration = 1, candidateIndex = 0, totalCandidates = 1, p_budget = 3\<rparr>])"
    unfolding eq f using stop by (simp add: reports_exLog roundEvents_def numeral_2_eq_2)
  have "greedyRecommendation exNullLibrary exTransferGraph ?pool [exPairST] 3 ''transfers''
      exLog None [] =
    (\<lparr>selectedLinks = [recommendationOf best imp ms], finalGraph = g,
      finalMetrics = computeMetrics exNullLibrary g [exPairST] ''transfers''\<rparr>,
     [\<lparr>p_iteration = 0, candidateIndex = 0, totalCandidates = 2, p_budget = 3\<rparr>,
      \<lparr>p_iteration = 0, candidateIndex = 1, totalCandidates = 2, p_budget = 3\<rparr>,
      \<lparr>p_iteration = 1, candidateIndex = 0, totalCandidates = 1, p_budget = 3\<rparr>])"
    by (simp add: greedyRecommendation_def Let_def exBaseline coefficientsOf_def loop)
  moreover from b have "map (\<lambda>r. (c_from r, c_to r))
      (selectedLinks \<lparr>selectedLinks = [recommendationOf best imp ms], finalGraph = g,
        finalMetrics = computeMetrics exNullLibrary g [exPairST] ''transfers''\<rparr>)
      = [(''S'', ''T'')]"
    by (simp add: recommendationOf_def exCandidate_def)
  ultimately show ?thesis using exImproves by simp
qed

end
